theory Spec2Isabelle
  imports Complex_Main "HOL-Library.Sublist"
begin

unbundle bit_operations_syntax

section \<open>Python values shared by both scripts\<close>

subsection \<open>Exceptions\<close>

text \<open>
  The exception classes that occur in the two scripts and in the calls they make.
  \<^verbatim>\<open>KeyboardInterrupt\<close> and \<^verbatim>\<open>SystemExit\<close> derive from \<^verbatim>\<open>BaseException\<close> only, every other
  class below derives from \<^verbatim>\<open>Exception\<close>; \<^verbatim>\<open>ModuleNotFoundError\<close> is a subclass of
  \<^verbatim>\<open>ImportError\<close> and \<^verbatim>\<open>FileNotFoundError\<close> of \<^verbatim>\<open>OSError\<close>.
\<close>

datatype py_exn =
    KeyboardInterrupt | SystemExit
  | ImportError | ModuleNotFoundError
  | ValueError | IndexError | ZeroDivisionError
  | OSError | FileNotFoundError | RuntimeError

fun is_Exception :: "py_exn \<Rightarrow> bool" where
  "is_Exception KeyboardInterrupt = False"
| "is_Exception SystemExit = False"
| "is_Exception e = True"

fun is_ImportError :: "py_exn \<Rightarrow> bool" where
  "is_ImportError ImportError = True"
| "is_ImportError ModuleNotFoundError = True"
| "is_ImportError e = False"

fun is_ValueError :: "py_exn \<Rightarrow> bool" where
  "is_ValueError ValueError = True"
| "is_ValueError e = False"

fun is_KeyboardInterrupt :: "py_exn \<Rightarrow> bool" where
  "is_KeyboardInterrupt KeyboardInterrupt = True"
| "is_KeyboardInterrupt e = False"

subsection \<open>Strings\<close>

text \<open>
  A \<^verbatim>\<open>str\<close> is a list of code points below 256, one \<^typ>\<open>char\<close> each. The character
  classes below are those of \<^verbatim>\<open>str.isspace\<close>, of the line boundaries of
  \<^verbatim>\<open>str.splitlines\<close>, of the white space \<^verbatim>\<open>int\<close> skips and of \<^verbatim>\<open>str.lower\<close> on that range.
\<close>

definition py_isspace :: "char \<Rightarrow> bool" where
  "py_isspace c =
     (let n = (of_char c :: nat)
      in (9 \<le> n \<and> n \<le> 13) \<or> (28 \<le> n \<and> n \<le> 32) \<or> n = 133 \<or> n = 160)"

definition is_linebreak :: "char \<Rightarrow> bool" where
  "is_linebreak c =
     (let n = (of_char c :: nat)
      in (10 \<le> n \<and> n \<le> 13) \<or> (28 \<le> n \<and> n \<le> 30) \<or> n = 133)"

definition int_space :: "char \<Rightarrow> bool" where
  "int_space c =
     (let n = (of_char c :: nat)
      in (9 \<le> n \<and> n \<le> 13) \<or> n = 32 \<or> n = 133 \<or> n = 160)"

definition is_digit :: "char \<Rightarrow> bool" where
  "is_digit c = (let n = (of_char c :: nat) in 48 \<le> n \<and> n \<le> 57)"

definition digit_val :: "char \<Rightarrow> nat" where
  "digit_val c = of_char c - 48"

definition lower_char :: "char \<Rightarrow> char" where
  "lower_char c =
     (let n = (of_char c :: nat)
      in if (65 \<le> n \<and> n \<le> 90) \<or> (192 \<le> n \<and> n \<le> 222 \<and> n \<noteq> 215)
         then char_of (n + 32) else c)"

definition py_lower :: "string \<Rightarrow> string" where
  "py_lower s = map lower_char s"

definition strip_with :: "(char \<Rightarrow> bool) \<Rightarrow> string \<Rightarrow> string" where
  "strip_with ws s = rev (dropWhile ws (rev (dropWhile ws s)))"

definition py_strip :: "string \<Rightarrow> string" where
  "py_strip s = strip_with py_isspace s"

definition py_startswith :: "string \<Rightarrow> string \<Rightarrow> bool" where
  "py_startswith s p = (take (length p) s = p)"

definition py_endswith :: "string \<Rightarrow> string \<Rightarrow> bool" where
  "py_endswith s p = py_startswith (rev s) (rev p)"

text \<open>\<^verbatim>\<open>sub in s\<close>.\<close>

fun py_contains :: "string \<Rightarrow> string \<Rightarrow> bool" where
  "py_contains sub [] = (sub = [])"
| "py_contains sub (c # cs) = (py_startswith (c # cs) sub \<or> py_contains sub cs)"

text \<open>
  \<^verbatim>\<open>s.splitlines()\<close>: the text is cut at every line boundary, \<^verbatim>\<open>\r\n\<close> counting as one,
  and text after the last boundary is a line only when it is not empty. The first argument
  is the line collected so far.
\<close>

fun splitlines_from :: "string \<Rightarrow> string \<Rightarrow> string list" where
  "splitlines_from cur [] = (if cur = [] then [] else [cur])"
| "splitlines_from cur [c] = (if is_linebreak c then [cur] else [cur @ [c]])"
| "splitlines_from cur (c # d # ds) =
     (if c = CHR 0x0D \<and> d = CHR 0x0A then cur # splitlines_from [] ds
      else if is_linebreak c then cur # splitlines_from [] (d # ds)
      else splitlines_from (cur @ [c]) (d # ds))"

definition py_splitlines :: "string \<Rightarrow> string list" where
  "py_splitlines s = splitlines_from [] s"

text \<open>
  \<^verbatim>\<open>s.split(sep)\<close> scans from the left and cuts at every occurrence of \<^verbatim>\<open>sep\<close> that does
  not overlap an earlier one; an empty separator raises \<^verbatim>\<open>ValueError\<close>.
\<close>

function split_from :: "string \<Rightarrow> string \<Rightarrow> string \<Rightarrow> string list" where
  "split_from sep cur [] = [cur]"
| "split_from sep cur (c # cs) =
     (if py_startswith (c # cs) sep then cur # split_from sep [] (drop (length sep - 1) cs)
      else split_from sep (cur @ [c]) cs)"
  by pat_completeness auto
termination
  by (relation "measure (\<lambda>(sep, cur, s). length s)") auto

definition py_split :: "string \<Rightarrow> string \<Rightarrow> py_exn + string list" where
  "py_split s sep = (if sep = [] then Inl ValueError else Inr (split_from sep [] s))"

text \<open>\<^verbatim>\<open>xs[i]\<close> for \<open>i \<ge> 0\<close>.\<close>

definition py_index :: "'a list \<Rightarrow> nat \<Rightarrow> py_exn + 'a" where
  "py_index xs i = (if i < length xs then Inr (xs ! i) else Inl IndexError)"

text \<open>\<^verbatim>\<open>s.replace(old, "")\<close> for a single character \<^verbatim>\<open>old\<close>.\<close>

definition remove_char :: "char \<Rightarrow> string \<Rightarrow> string" where
  "remove_char c s = filter (\<lambda>d. d \<noteq> c) s"

text \<open>
  \<^verbatim>\<open>int(s)\<close> on a string, base 10: white space at both ends is skipped, then an optional
  sign, then digits, where single underscores may stand between digits. Anything else
  raises \<^verbatim>\<open>ValueError\<close>. So does a text with too many digits: the interpreter has a limit
  \<^verbatim>\<open>sys.get_int_max_str_digits()\<close>, 4300 unless it was set otherwise and 0 when there is none,
  and it compares the number of digits with the limit only when there are more than 640 of
  them. The digits are counted without the sign, the underscores and the white space.
\<close>

definition over_limit :: "nat \<Rightarrow> nat \<Rightarrow> bool" where
  "over_limit max_str_digits digits =
     (640 < digits \<and> 0 < max_str_digits \<and> max_str_digits < digits)"

fun digits_from :: "nat \<Rightarrow> bool \<Rightarrow> string \<Rightarrow> nat option" where
  "digits_from acc prev [] = (if prev then Some acc else None)"
| "digits_from acc prev (c # cs) =
     (if is_digit c then digits_from (10 * acc + digit_val c) True cs
      else if c = CHR ''_'' \<and> prev then digits_from acc False cs
      else None)"

definition int_digits :: "nat \<Rightarrow> string \<Rightarrow> nat option" where
  "int_digits max_str_digits body =
     (if over_limit max_str_digits (length (filter is_digit body)) then None
      else digits_from 0 False body)"

definition py_int :: "nat \<Rightarrow> string \<Rightarrow> py_exn + int" where
  "py_int max_str_digits s =
     (case strip_with int_space s of
        [] \<Rightarrow> Inl ValueError
      | c # cs \<Rightarrow>
          (if c = CHR ''-'' then
             (case int_digits max_str_digits cs of
                None \<Rightarrow> Inl ValueError | Some n \<Rightarrow> Inr (- int n))
           else if c = CHR ''+'' then
             (case int_digits max_str_digits cs of
                None \<Rightarrow> Inl ValueError | Some n \<Rightarrow> Inr (int n))
           else
             (case int_digits max_str_digits (c # cs) of
                None \<Rightarrow> Inl ValueError | Some n \<Rightarrow> Inr (int n))))"

text \<open>
  \<^verbatim>\<open>str(i)\<close> for an integer. (The integers the two scripts print are a frame count, a class
  index and a camera index read by \<^verbatim>\<open>int\<close>; none can have more digits than the limit.)
\<close>

fun nat_digits :: "nat \<Rightarrow> string" where
  "nat_digits n =
     (if n < 10 then [''0123456789'' ! n]
      else nat_digits (n div 10) @ [''0123456789'' ! (n mod 10)])"

definition py_str :: "int \<Rightarrow> string" where
  "py_str i = (if i < 0 then CHR ''-'' # nat_digits (nat (- i)) else nat_digits (nat i))"

section \<open>Camera probing: \<^verbatim>\<open>list_cameras.py\<close>\<close>

subsection \<open>\<^verbatim>\<open>list_camera_indexes\<close>\<close>

text \<open>
  The capture library reports failure through return values: \<^verbatim>\<open>cap.isOpened()\<close> and the
  \<^verbatim>\<open>ret\<close> component of \<^verbatim>\<open>cap.read()\<close>. Every index is probed once, so the library is
  a pair of functions of the index. A handle is named by the index it was created for.
\<close>

record capture_lib =
  cv_isOpened :: "int \<Rightarrow> bool"
  cv_read :: "int \<Rightarrow> bool"

datatype cv_call = VideoCapture int | Read int | Release int

text \<open>
  The loop state: the list \<^verbatim>\<open>indexes\<close>, the devices currently held open by a handle, and
  the calls made to the library so far, oldest first.
\<close>

record probe_state =
  indexes :: "int list"
  live :: "int set"
  calls :: "cv_call list"

definition probe_init :: probe_state where
  "probe_init = \<lparr>indexes = [], live = {}, calls = []\<rparr>"

text \<open>One iteration of the \<^verbatim>\<open>for i in range(max_tested)\<close> loop.\<close>

definition probe :: "capture_lib \<Rightarrow> probe_state \<Rightarrow> int \<Rightarrow> probe_state" where
  "probe lib s i =
     (let s1 = s\<lparr>calls := calls s @ [VideoCapture i],
                 live := (if cv_isOpened lib i then insert i (live s) else live s)\<rparr>
      in if cv_isOpened lib i then
           let s2 = s1\<lparr>calls := calls s1 @ [Read i]\<rparr>;
               s3 = (if cv_read lib i then s2\<lparr>indexes := indexes s2 @ [i]\<rparr> else s2)
           in s3\<lparr>calls := calls s3 @ [Release i], live := live s3 - {i}\<rparr>
         else s1)"

text \<open>\<^verbatim>\<open>range(max_tested)\<close> is the list \<open>[0..max_tested - 1]\<close>, empty when \<open>max_tested \<le> 0\<close>.\<close>

definition py_range :: "int \<Rightarrow> int list" where
  "py_range n = [0..n - 1]"

definition probe_all :: "capture_lib \<Rightarrow> int \<Rightarrow> probe_state" where
  "probe_all lib max_tested = foldl (probe lib) probe_init (py_range max_tested)"

definition list_camera_indexes :: "capture_lib \<Rightarrow> int \<Rightarrow> int list" where
  "list_camera_indexes lib max_tested = indexes (probe_all lib max_tested)"

text \<open>
  Two concrete libraries: no camera at all; and devices 0, 2 and 3 that open, of which
  device 2 delivers no frame.
\<close>

definition no_camera :: capture_lib where
  "no_camera = \<lparr>cv_isOpened = (\<lambda>i. False), cv_read = (\<lambda>i. False)\<rparr>"

definition three_devices :: capture_lib where
  "three_devices =
     \<lparr>cv_isOpened = (\<lambda>i. i = 0 \<or> i = 2 \<or> i = 3), cv_read = (\<lambda>i. i = 0 \<or> i = 3)\<rparr>"

subsection \<open>\<^verbatim>\<open>get_camera_names\<close>\<close>

text \<open>
  The dictionary \<^verbatim>\<open>names\<close>. A value is \<^verbatim>\<open>None\<close> or a string, since the Linux branch stores
  the variable \<^verbatim>\<open>dev_name\<close>, which starts as \<^verbatim>\<open>None\<close>.
\<close>

type_synonym names = "int \<rightharpoonup> string option"

text \<open>\<^verbatim>\<open>for i, name in enumerate(xs): names[i] = f(name)\<close>.\<close>

fun enumerate_into :: "names \<Rightarrow> int \<Rightarrow> string list \<Rightarrow> names" where
  "enumerate_into nm i [] = nm"
| "enumerate_into nm i (x # xs) = enumerate_into (nm(i \<mapsto> Some x)) (i + 1) xs"

text \<open>The Linux branch: the state of the loop over the lines of the tool's output.\<close>

record v4l_state =
  v_names :: names
  dev_name :: "string option"

text \<open>\<^verbatim>\<open>int(dev_path.split("video")[1])\<close>.\<close>

definition path_index :: "nat \<Rightarrow> string \<Rightarrow> py_exn + int" where
  "path_index max_str_digits dev_path =
     (case py_split dev_path ''video'' of
        Inl e \<Rightarrow> Inl e
      | Inr parts \<Rightarrow>
          (case py_index parts 1 of Inl e \<Rightarrow> Inl e | Inr seg \<Rightarrow> py_int max_str_digits seg))"

text \<open>
  The body of \<^verbatim>\<open>for line in lines\<close>. The inner handler catches \<^verbatim>\<open>ValueError\<close> only; any
  other exception leaves the loop.
\<close>

definition v4l_line :: "nat \<Rightarrow> v4l_state \<Rightarrow> string \<Rightarrow> py_exn + v4l_state" where
  "v4l_line max_str_digits s line =
     (if \<not> py_startswith line [CHR 0x09] then Inr (s\<lparr>dev_name := Some (py_strip line)\<rparr>)
      else
        let dev_path = py_strip line
        in if py_contains ''/dev/video'' dev_path then
             (case path_index max_str_digits dev_path of
                Inr idx \<Rightarrow> Inr (s\<lparr>v_names := (v_names s)(idx \<mapsto> dev_name s)\<rparr>)
              | Inl e \<Rightarrow> if is_ValueError e then Inr s else Inl e)
           else Inr s)"

text \<open>The loop: the state reached, and the exception that ended the loop early, if any.\<close>

fun v4l_lines :: "nat \<Rightarrow> v4l_state \<Rightarrow> string list \<Rightarrow> v4l_state \<times> py_exn option" where
  "v4l_lines max_str_digits s [] = (s, None)"
| "v4l_lines max_str_digits s (l # ls) =
     (case v4l_line max_str_digits s l of
        Inl e \<Rightarrow> (s, Some e)
      | Inr s' \<Rightarrow> v4l_lines max_str_digits s' ls)"

definition linux_names :: "nat \<Rightarrow> names \<Rightarrow> string \<Rightarrow> names \<times> py_exn option" where
  "linux_names max_str_digits nm stdout =
     (let lines = py_splitlines (py_strip stdout);
          (s, r) = v4l_lines max_str_digits \<lparr>v_names = nm, dev_name = None\<rparr> lines
      in (v_names s, r))"

text \<open>The macOS branch.\<close>

definition darwin_names :: "names \<Rightarrow> string \<Rightarrow> names" where
  "darwin_names nm stdout =
     (let lines = py_splitlines stdout;
          camera_names = map py_strip (filter (\<lambda>l. py_endswith (py_strip l) ''Camera:'') lines)
      in enumerate_into nm 0 (map (remove_char CHR '':'') camera_names))"

text \<open>
  The host: the value of \<^verbatim>\<open>platform.system()\<close>, the interpreter's limit on the digits of an
  integer text and, for each branch, what its external part does: it raises, or it delivers
  its result (the device list of the device-graph library, including its import; the
  captured standard output of a command).
\<close>

record host =
  system :: string
  int_max_str_digits :: nat
  input_devices :: "py_exn + string list"
  v4l2_ctl :: "py_exn + string"
  system_profiler :: "py_exn + string"

datatype out_line = Tip | Could_not_read_camera_names py_exn

text \<open>
  The body of the outer \<^verbatim>\<open>try\<close>: what was printed, the dictionary as it stands when the
  body ends, and the exception that ended it, if any.
\<close>

definition names_body :: "host \<Rightarrow> out_line list \<times> names \<times> py_exn option" where
  "names_body h =
     (if system h = ''Windows'' then
        (case input_devices h of
           Inl e \<Rightarrow> if is_ImportError e then ([Tip], Map.empty, None) else ([], Map.empty, Some e)
         | Inr devices \<Rightarrow> ([], enumerate_into Map.empty 0 devices, None))
      else if system h = ''Linux'' then
        (case v4l2_ctl h of
           Inl e \<Rightarrow> ([], Map.empty, Some e)
         | Inr stdout \<Rightarrow>
             (case linux_names (int_max_str_digits h) Map.empty stdout of
                (nm, r) \<Rightarrow> ([], nm, r)))
      else if system h = ''Darwin'' then
        (case system_profiler h of
           Inl e \<Rightarrow> ([], Map.empty, Some e)
         | Inr stdout \<Rightarrow> ([], darwin_names Map.empty stdout, None))
      else ([], Map.empty, None))"

text \<open>
  \<^verbatim>\<open>get_camera_names\<close>: what it prints, and the exception it raises or the dictionary it
  returns. The outer handler is \<^verbatim>\<open>except Exception\<close>.
\<close>

definition get_camera_names :: "host \<Rightarrow> out_line list \<times> (py_exn + names)" where
  "get_camera_names h =
     (case names_body h of
        (out, nm, None) \<Rightarrow> (out, Inr nm)
      | (out, nm, Some e) \<Rightarrow>
          if is_Exception e then (out @ [Could_not_read_camera_names e], Inr nm)
          else (out, Inl e))"

text \<open>
  Linux hosts with the interpreter's default limit: one whose listing tool prints the given
  text, one without the tool, and one where the user interrupts the tool.
\<close>

definition linux_host :: "string \<Rightarrow> host" where
  "linux_host stdout =
     \<lparr>system = ''Linux'', int_max_str_digits = 4300, input_devices = Inl ModuleNotFoundError,
      v4l2_ctl = Inr stdout, system_profiler = Inl FileNotFoundError\<rparr>"

definition linux_without_tool :: host where
  "linux_without_tool =
     \<lparr>system = ''Linux'', int_max_str_digits = 4300, input_devices = Inl ModuleNotFoundError,
      v4l2_ctl = Inl FileNotFoundError, system_profiler = Inl FileNotFoundError\<rparr>"

definition linux_interrupted :: host where
  "linux_interrupted =
     \<lparr>system = ''Linux'', int_max_str_digits = 4300, input_devices = Inl ModuleNotFoundError,
      v4l2_ctl = Inl KeyboardInterrupt, system_profiler = Inl FileNotFoundError\<rparr>"

text \<open>
  Outputs of the listing tool: a usual one with two devices; one whose path carries a
  signed number; one that starts with an indented path line.
\<close>

definition listing_usual :: string where
  "listing_usual =
     ''HD Webcam (usb-0000:00:14.0-1):'' @ [CHR 0x0A] @
     [CHR 0x09] @ ''/dev/video0'' @ [CHR 0x0A] @
     [CHR 0x09] @ ''/dev/video1'' @ [CHR 0x0A] @
     [CHR 0x09] @ ''/dev/media0'' @ [CHR 0x0A] @
     [CHR 0x0A] @
     ''Capture card:'' @ [CHR 0x0A] @
     [CHR 0x09] @ ''/dev/video2'' @ [CHR 0x0A] @
     [CHR 0x09] @ ''/dev/videoX'' @ [CHR 0x0A]"

definition listing_negative :: string where
  "listing_negative = ''Cam'' @ [CHR 0x0A] @ [CHR 0x09] @ ''/dev/video-3'' @ [CHR 0x0A]"

definition listing_path_first :: string where
  "listing_path_first = [CHR 0x09] @ ''/dev/video0'' @ [CHR 0x0A]"

section \<open>The detection loop: \<^verbatim>\<open>main.py\<close>\<close>

text \<open>
  Floating-point values (confidences, box coordinates, clock readings, the frame rate) are
  carried as real numbers; the only test the program makes on one of them is whether the
  divisor \<^verbatim>\<open>now - fps_time\<close> is zero, which holds exactly when both readings are equal.
\<close>

text \<open>The parsed command line; \<^verbatim>\<open>args.show\<close> is \<^verbatim>\<open>not args.no_show\<close>.\<close>

record args =
  a_cam :: int
  a_conf :: real
  a_model :: string
  a_show :: bool

text \<open>One detection: \<^verbatim>\<open>int(box.cls)\<close>, \<^verbatim>\<open>float(box.conf)\<close> and the flattened \<^verbatim>\<open>box.xyxy\<close>.\<close>

record box =
  b_cls :: int
  b_conf :: real
  b_xyxy :: "real list"

text \<open>What the program does to the outside, in order.\<close>

datatype event =
    Print string
  | LoadModel string
  | OpenCamera int
  | CapRead
  | Inference real
  | DrawBox "real list" string real
  | StatusText string "nat \<times> nat \<times> nat"
  | FpsText real
  | ImShow
  | WaitKey
  | CapRelease
  | DestroyAllWindows

text \<open>\<^verbatim>\<open>model.names.get(cls_idx, str(cls_idx))\<close>.\<close>

definition class_name :: "(int \<rightharpoonup> string) \<Rightarrow> int \<Rightarrow> string" where
  "class_name model_names cls_idx =
     (case model_names cls_idx of Some n \<Rightarrow> n | None \<Rightarrow> py_str cls_idx)"

text \<open>The test of line 66, both clauses.\<close>

definition phone_test :: "string \<Rightarrow> bool" where
  "phone_test name =
     (py_contains ''phone'' (py_lower name) \<or> py_contains ''cell phone'' (py_lower name))"

text \<open>
  The body of \<^verbatim>\<open>for box in results.boxes\<close>; the state is the drawing done so far and the
  flag \<^verbatim>\<open>detected_phone\<close>.
\<close>

definition box_step ::
  "(int \<rightharpoonup> string) \<Rightarrow> event list \<times> bool \<Rightarrow> box \<Rightarrow> event list \<times> bool" where
  "box_step model_names st b =
     (let name = class_name model_names (b_cls b)
      in if phone_test name then (fst st @ [DrawBox (b_xyxy b) name (b_conf b)], True)
         else st)"

definition detect :: "(int \<rightharpoonup> string) \<Rightarrow> box list \<Rightarrow> event list \<times> bool" where
  "detect model_names boxes = foldl (box_step model_names) ([], False) boxes"

definition status_text :: "bool \<Rightarrow> string" where
  "status_text detected_phone = (if detected_phone then ''PHONE DETECTED'' else ''no phone'')"

definition status_colour :: "bool \<Rightarrow> nat \<times> nat \<times> nat" where
  "status_colour detected_phone = (if detected_phone then (0, 200, 0) else (0, 0, 255))"

text \<open>\<^verbatim>\<open>f"[{frame_count}] {status_text}"\<close>.\<close>

definition status_line :: "int \<Rightarrow> bool \<Rightarrow> string" where
  "status_line n detected_phone = ''['' @ py_str n @ ''] '' @ status_text detected_phone"

text \<open>\<^verbatim>\<open>a / b\<close> on floats.\<close>

definition py_truediv :: "real \<Rightarrow> real \<Rightarrow> py_exn + real" where
  "py_truediv a b = (if b = 0 then Inl ZeroDivisionError else Inr (a / b))"

text \<open>
  What the outside delivers during one pass through the loop body: \<^verbatim>\<open>cap.read()\<close> raises or
  returns \<^verbatim>\<open>ret\<close>; the model call raises or returns the detections; the value
  \<^verbatim>\<open>time.time()\<close> has if it is called; the value \<^verbatim>\<open>cv2.waitKey(1)\<close> has if it is called.
\<close>

record tick =
  t_read :: "py_exn + bool"
  t_infer :: "py_exn + box list"
  t_now :: real
  t_key :: int

record loop_state =
  fps_time :: real
  frame_count :: int

datatype step = Continue loop_state | Break | Raise py_exn

text \<open>Lines 76 to 80: the frame rate, every tenth frame.\<close>

definition fps_step :: "loop_state \<Rightarrow> real \<Rightarrow> py_exn + (event list \<times> loop_state)" where
  "fps_step s now =
     (if frame_count s mod 10 = 0 then
        (case py_truediv 10 (now - fps_time s) of
           Inl e \<Rightarrow> Inl e
         | Inr fps \<Rightarrow> Inr ([FpsText fps], s\<lparr>fps_time := now\<rparr>))
      else Inr ([], s))"

text \<open>Lines 82 to 88: the window and the quit key, or the console line.\<close>

definition show_step :: "args \<Rightarrow> loop_state \<Rightarrow> bool \<Rightarrow> int \<Rightarrow> event list \<times> step" where
  "show_step a s detected_phone key =
     (if a_show a then
        ([ImShow, WaitKey], if key AND 255 = 113 then Break else Continue s)
      else ([Print (status_line (frame_count s) detected_phone)], Continue s))"

text \<open>One pass through the body of \<^verbatim>\<open>while True\<close>, lines 47 to 88.\<close>

definition iteration ::
  "args \<Rightarrow> (int \<rightharpoonup> string) \<Rightarrow> loop_state \<Rightarrow> tick \<Rightarrow> event list \<times> step" where
  "iteration a model_names s t =
     (case t_read t of
        Inl e \<Rightarrow> ([CapRead], Raise e)
      | Inr ret \<Rightarrow>
          if \<not> ret then ([CapRead, Print ''Failed to read frame from camera.''], Break)
          else
            let s1 = s\<lparr>frame_count := frame_count s + 1\<rparr>
            in (case t_infer t of
                  Inl e \<Rightarrow> ([CapRead, Inference (a_conf a)], Raise e)
                | Inr boxes \<Rightarrow>
                    let (drawn, detected_phone) = detect model_names boxes;
                        evs = [CapRead, Inference (a_conf a)] @ drawn @
                              [StatusText (status_text detected_phone) (status_colour detected_phone)]
                    in (case fps_step s1 (t_now t) of
                          Inl e \<Rightarrow> (evs, Raise e)
                        | Inr (fps_evs, s2) \<Rightarrow>
                            let (show_evs, r) = show_step a s2 detected_phone (t_key t)
                            in (evs @ fps_evs @ show_evs, r))))"

text \<open>
  The \<^verbatim>\<open>while True\<close> loop, run against what the outside delivers pass by pass. The loop has
  no exit of its own, so a finite list of passes may end with the loop still running.
\<close>

datatype loop_end = Still_running loop_state | Broke | Threw py_exn

fun loop :: "args \<Rightarrow> (int \<rightharpoonup> string) \<Rightarrow> loop_state \<Rightarrow> tick list \<Rightarrow> event list \<times> loop_end" where
  "loop a model_names s [] = ([], Still_running s)"
| "loop a model_names s (t # ts) =
     (case iteration a model_names s t of
        (evs, Continue s') \<Rightarrow>
          (case loop a model_names s' ts of (evs', r) \<Rightarrow> (evs @ evs', r))
      | (evs, Break) \<Rightarrow> (evs, Broke)
      | (evs, Raise e) \<Rightarrow> (evs, Threw e))"

text \<open>
  Everything outside the program that \<^verbatim>\<open>main\<close> meets: loading the model raises or gives
  the table \<^verbatim>\<open>model.names\<close>; the camera opens or not; the clock reading taken before the loop;
  and the passes of the loop.
\<close>

record world =
  w_load :: "py_exn + (int \<rightharpoonup> string)"
  w_opened :: bool
  w_start :: real
  w_ticks :: "tick list"

datatype ending = Returned | Raised py_exn | Running

text \<open>The \<^verbatim>\<open>finally\<close> block.\<close>

definition cleanup :: "event list" where
  "cleanup = [CapRelease, DestroyAllWindows, Print ''Exiting.'']"

definition main :: "args \<Rightarrow> world \<Rightarrow> event list \<times> ending" where
  "main a w =
     (let evs0 = [Print (''Loading model: '' @ a_model a), LoadModel (a_model a)]
      in case w_load w of
           Inl e \<Rightarrow> (evs0, Raised e)
         | Inr model_names \<Rightarrow>
             if \<not> w_opened w then
               (evs0 @ [OpenCamera (a_cam a),
                        Print (''ERROR: Cannot open camera index '' @ py_str (a_cam a))],
                Returned)
             else
               let evs1 = evs0 @ [OpenCamera (a_cam a), Print ''Camera opened. Press 'q' to quit.''];
                   s0 = \<lparr>fps_time = w_start w, frame_count = 0\<rparr>
               in (case loop a model_names s0 (w_ticks w) of
                     (evs, Still_running s) \<Rightarrow> (evs1 @ evs, Running)
                   | (evs, Broke) \<Rightarrow> (evs1 @ evs @ cleanup, Returned)
                   | (evs, Threw e) \<Rightarrow>
                       if is_KeyboardInterrupt e
                       then (evs1 @ evs @ [Print ''Interrupted by user.''] @ cleanup, Returned)
                       else (evs1 @ evs @ cleanup, Raised e)))"

text \<open>The lines printed and the frame rates drawn among the events.\<close>

definition printed :: "event list \<Rightarrow> string list" where
  "printed evs = concat (map (\<lambda>e. case e of Print l \<Rightarrow> [l] | _ \<Rightarrow> []) evs)"




text \<open>A pass in which the model reported a phone-like detection.\<close>

definition phone_frame :: "(int \<rightharpoonup> string) \<Rightarrow> tick \<Rightarrow> bool" where
  "phone_frame model_names t =
     (case t_infer t of Inl e \<Rightarrow> False | Inr boxes \<Rightarrow> snd (detect model_names boxes))"


subsection \<open>Sample inputs\<close>

text \<open>A table of class names, and the detections of one frame.\<close>

definition coco_names :: "int \<rightharpoonup> string" where
  "coco_names = [0 \<mapsto> ''person'', 67 \<mapsto> ''cell phone'', 1 \<mapsto> ''Smartphone'']"

definition sample_boxes :: "box list" where
  "sample_boxes =
     [\<lparr>b_cls = 0, b_conf = 0.9, b_xyxy = [0, 0, 10, 10]\<rparr>,
      \<lparr>b_cls = 67, b_conf = 0.82, b_xyxy = [1, 2, 3, 4]\<rparr>,
      \<lparr>b_cls = 5, b_conf = 0.5, b_xyxy = [5, 5, 6, 6]\<rparr>,
      \<lparr>b_cls = 1, b_conf = 0.4, b_xyxy = [7, 7, 9, 9]\<rparr>]"

text \<open>Command lines: the preview window off, and on.\<close>

definition quiet_args :: args where
  "quiet_args = \<lparr>a_cam = 0, a_conf = 0.35, a_model = ''yolov8n.pt'', a_show = False\<rparr>"

definition window_args :: args where
  "window_args = \<lparr>a_cam = 3, a_conf = 0.35, a_model = ''yolov8n.pt'', a_show = True\<rparr>"

text \<open>A frame with no detection, and a frame with the sample detections, read at a given time.\<close>

definition plain_tick :: "real \<Rightarrow> tick" where
  "plain_tick now = \<lparr>t_read = Inr True, t_infer = Inr [], t_now = now, t_key = - 1\<rparr>"

definition phone_tick :: "real \<Rightarrow> tick" where
  "phone_tick now = \<lparr>t_read = Inr True, t_infer = Inr sample_boxes, t_now = now, t_key = - 1\<rparr>"

text \<open>Twenty-three frames, one per second, with a phone on frames 5 and 17.\<close>

definition frames23 :: "tick list" where
  "frames23 =
     [plain_tick 1, plain_tick 2, plain_tick 3, plain_tick 4, phone_tick 5,
      plain_tick 6, plain_tick 7, plain_tick 8, plain_tick 9, plain_tick 10,
      plain_tick 11, plain_tick 12, plain_tick 13, plain_tick 14, plain_tick 15,
      plain_tick 16, phone_tick 17, plain_tick 18, plain_tick 19, plain_tick 20,
      plain_tick 21, plain_tick 22, plain_tick 23]"

text \<open>A camera that does not open.\<close>

definition no_camera_world :: world where
  "no_camera_world = \<lparr>w_load = Inr coco_names, w_opened = False, w_start = 0, w_ticks = []\<rparr>"

text \<open>A read that fails; and the twenty-three frames, after which the camera stops delivering.\<close>

definition failed_read :: tick where
  "failed_read = \<lparr>t_read = Inr False, t_infer = Inr [], t_now = 24, t_key = - 1\<rparr>"

definition unplugged_world :: world where
  "unplugged_world =
     \<lparr>w_load = Inr coco_names, w_opened = True, w_start = 0, w_ticks = frames23 @ [failed_read]\<rparr>"

text \<open>One frame is read, and the user interrupts the program while the model runs on it.\<close>

definition interrupted_world :: world where
  "interrupted_world =
     \<lparr>w_load = Inr coco_names, w_opened = True, w_start = 0,
      w_ticks = [\<lparr>t_read = Inr True, t_infer = Inl KeyboardInterrupt, t_now = 1, t_key = - 1\<rparr>]\<rparr>"

text \<open>Ten frames during which the clock does not advance.\<close>

definition stalled_clock_world :: world where
  "stalled_clock_world =
     \<lparr>w_load = Inr coco_names, w_opened = True, w_start = 0,
      w_ticks = replicate 10 (plain_tick 0)\<rparr>"

section \<open>Properties of \<^verbatim>\<open>list_camera_indexes\<close>\<close>

lemma probe_indexes:
  "indexes (probe lib s i) = indexes s @ (if cv_isOpened lib i \<and> cv_read lib i then [i] else [])"
  by (simp add: probe_def Let_def)

lemma foldl_probe_indexes:
  "indexes (foldl (probe lib) s xs) = indexes s @ filter (\<lambda>i. cv_isOpened lib i \<and> cv_read lib i) xs"
  by (induction xs arbitrary: s) (simp_all add: probe_indexes)

lemma list_camera_indexes_filter:
  "list_camera_indexes lib n = filter (\<lambda>i. cv_isOpened lib i \<and> cv_read lib i) (py_range n)"
  by (simp add: list_camera_indexes_def probe_all_def foldl_probe_indexes probe_init_def)

lemma probe_calls:
  "calls (probe lib s i) =
     calls s @ VideoCapture i # (if cv_isOpened lib i then [Read i, Release i] else [])"
  by (simp add: probe_def Let_def)

lemma probe_live: "live s = {} \<Longrightarrow> live (probe lib s i) = {}"
  by (simp add: probe_def Let_def)

lemma foldl_probe_live: "live s = {} \<Longrightarrow> live (foldl (probe lib) s xs) = {}"
  by (induction xs arbitrary: s) (simp_all add: probe_live)

lemma foldl_probe_calls:
  "calls (foldl (probe lib) s xs) =
     calls s @ concat (map (\<lambda>i. VideoCapture i # (if cv_isOpened lib i then [Read i, Release i] else [])) xs)"
  by (induction xs arbitrary: s) (simp_all add: probe_calls)

lemma strict_sorted_range: "sorted_wrt (<) (py_range n)"
  unfolding py_range_def by (simp add: strict_sorted_iff)

lemma length_range: "0 \<le> n \<Longrightarrow> int (length (py_range n)) = n"
  by (simp add: py_range_def)

lemma set_range: "set (py_range n) = {i. 0 \<le> i \<and> i < n}"
  by (auto simp: py_range_def)

text \<open>
  Claim C2. For every \<open>max_tested \<ge> 0\<close> the list returned by \<^verbatim>\<open>list_camera_indexes\<close> is a
  subsequence of \<open>0, ..., max_tested - 1\<close>, strictly ascending, of length at most
  \<open>max_tested\<close>, and it holds an index exactly when that index opened and delivered one
  frame; an index that fails is left out, the function returns all the same.
\<close>

theorem list_camera_indexes_subsequence:
  assumes "0 \<le> max_tested"
  shows "subseq (list_camera_indexes lib max_tested) [0..max_tested - 1]
       \<and> sorted_wrt (<) (list_camera_indexes lib max_tested)
       \<and> int (length (list_camera_indexes lib max_tested)) \<le> max_tested
       \<and> (\<forall>i. i \<in> set (list_camera_indexes lib max_tested)
              \<longleftrightarrow> 0 \<le> i \<and> i < max_tested \<and> cv_isOpened lib i \<and> cv_read lib i)"
proof -
  let ?P = "\<lambda>i. cv_isOpened lib i \<and> cv_read lib i"
  have eq: "list_camera_indexes lib max_tested = filter ?P (py_range max_tested)"
    by (rule list_camera_indexes_filter)
  have a: "subseq (filter ?P (py_range max_tested)) [0..max_tested - 1]"
    by (simp add: py_range_def)
  have b: "sorted_wrt (<) (filter ?P (py_range max_tested))"
    by (rule sorted_wrt_filter) (rule strict_sorted_range)
  have "length (filter ?P (py_range max_tested)) \<le> length (py_range max_tested)"
    by (rule length_filter_le)
  then have c: "int (length (filter ?P (py_range max_tested))) \<le> max_tested"
    using length_range [OF assms] by linarith
  have d: "\<forall>i. i \<in> set (filter ?P (py_range max_tested))
              \<longleftrightarrow> 0 \<le> i \<and> i < max_tested \<and> cv_isOpened lib i \<and> cv_read lib i"
    by (auto simp: set_range)
  from a b c d show ?thesis unfolding eq by blast
qed

theorem list_camera_indexes_subsequence_witness:
  "(0::int) \<le> 4
   \<and> list_camera_indexes three_devices 4 = [0, 3]
   \<and> subseq (list_camera_indexes three_devices 4) [0..4 - 1]
   \<and> sorted_wrt (<) (list_camera_indexes three_devices 4)
   \<and> int (length (list_camera_indexes three_devices 4)) \<le> 4
   \<and> (\<forall>i. i \<in> set (list_camera_indexes three_devices 4)
          \<longleftrightarrow> 0 \<le> i \<and> i < 4 \<and> cv_isOpened three_devices i \<and> cv_read three_devices i)"
proof -
  have h: "(0::int) \<le> 4" by simp
  have v: "list_camera_indexes three_devices 4 = [0, 3]"
    by (simp add: list_camera_indexes_filter py_range_def three_devices_def upto_rec1)
  from list_camera_indexes_subsequence [OF h, of three_devices] h v show ?thesis by simp
qed

text \<open>
  Claim C4, as stated, at one probed index with no camera: the handle is created and
  \<^verbatim>\<open>release\<close> is not called on it, since the call sits under \<^verbatim>\<open>if cap.isOpened()\<close>.
\<close>

theorem release_skipped_when_open_fails:
  "VideoCapture 0 \<in> set (calls (probe_all no_camera 1))
   \<and> Release 0 \<notin> set (calls (probe_all no_camera 1))"
  by (simp add: probe_all_def py_range_def probe_def probe_init_def no_camera_def Let_def)

text \<open>
  Claim C4, amended. After every iteration of the probing loop no device is held open; the
  calls made for an index are the constructor alone when the open failed, and the
  constructor, one read and the release when it succeeded, whatever the read returned, all
  before the next index is touched; so \<^verbatim>\<open>release\<close> is called for exactly the probed indices
  that opened.
\<close>

theorem opened_handles_released:
  "live (foldl (probe lib) probe_init (take k (py_range max_tested))) = {}
   \<and> calls (probe_all lib max_tested) =
       concat (map (\<lambda>i. VideoCapture i # (if cv_isOpened lib i then [Read i, Release i] else []))
                   (py_range max_tested))
   \<and> (Release i \<in> set (calls (probe_all lib max_tested))
        \<longleftrightarrow> 0 \<le> i \<and> i < max_tested \<and> cv_isOpened lib i)"
proof -
  have a: "live (foldl (probe lib) probe_init (take k (py_range max_tested))) = {}"
    by (rule foldl_probe_live) (simp add: probe_init_def)
  have b: "calls (probe_all lib max_tested) =
       concat (map (\<lambda>i. VideoCapture i # (if cv_isOpened lib i then [Read i, Release i] else []))
                   (py_range max_tested))"
    by (simp add: probe_all_def foldl_probe_calls probe_init_def)
  have c: "Release i \<in> set (calls (probe_all lib max_tested))
        \<longleftrightarrow> 0 \<le> i \<and> i < max_tested \<and> cv_isOpened lib i"
    unfolding b by (auto simp: set_range split: if_splits)
  from a b c show ?thesis by blast
qed


section \<open>Properties of the detection loop\<close>

subsection \<open>Substring tests\<close>

lemma py_startswith_iff: "py_startswith s p \<longleftrightarrow> (\<exists>b. s = p @ b)"
proof
  assume "py_startswith s p"
  then have "s = p @ drop (length p) s"
    unfolding py_startswith_def by (metis append_take_drop_id)
  then show "\<exists>b. s = p @ b" ..
next
  assume "\<exists>b. s = p @ b"
  then show "py_startswith s p" unfolding py_startswith_def by auto
qed

lemma py_contains_iff: "py_contains sub s \<longleftrightarrow> (\<exists>a b. s = a @ sub @ b)"
proof (induction s)
  case Nil
  show ?case by auto
next
  case (Cons c cs)
  show ?case
  proof
    assume "py_contains sub (c # cs)"
    then consider "py_startswith (c # cs) sub" | "py_contains sub cs" by auto
    then show "\<exists>a b. c # cs = a @ sub @ b"
    proof cases
      case 1
      then obtain b where "c # cs = sub @ b" unfolding py_startswith_iff by blast
      then have "c # cs = [] @ sub @ b" by simp
      then show ?thesis by blast
    next
      case 2
      then obtain a b where "cs = a @ sub @ b" using Cons.IH by blast
      then have "c # cs = (c # a) @ sub @ b" by simp
      then show ?thesis by blast
    qed
  next
    assume "\<exists>a b. c # cs = a @ sub @ b"
    then obtain a b where ab: "c # cs = a @ sub @ b" by blast
    show "py_contains sub (c # cs)"
    proof (cases a)
      case Nil
      with ab have "py_startswith (c # cs) sub" unfolding py_startswith_iff by auto
      then show ?thesis by simp
    next
      case (Cons x a')
      with ab have "cs = a' @ sub @ b" by simp
      then have "py_contains sub cs" using Cons.IH by blast
      then show ?thesis by simp
    qed
  qed
qed

lemma cell_phone_is_phone: "py_contains ''cell phone'' s \<Longrightarrow> py_contains ''phone'' s"
proof -
  assume "py_contains ''cell phone'' s"
  then obtain a b where "s = a @ ''cell phone'' @ b" unfolding py_contains_iff by blast
  then have "s = (a @ ''cell '') @ ''phone'' @ b" by simp
  then show ?thesis unfolding py_contains_iff by blast
qed

lemma phone_test_iff: "phone_test name \<longleftrightarrow> py_contains ''phone'' (py_lower name)"
  unfolding phone_test_def using cell_phone_is_phone by blast

lemma box_step_eq:
  "box_step nm st b =
     (if phone_test (class_name nm (b_cls b))
      then (fst st @ [DrawBox (b_xyxy b) (class_name nm (b_cls b)) (b_conf b)], True)
      else st)"
  by (simp add: box_step_def Let_def)

lemma foldl_box_step:
  "foldl (box_step nm) st boxes =
     (fst st @ map (\<lambda>b. DrawBox (b_xyxy b) (class_name nm (b_cls b)) (b_conf b))
                  (filter (\<lambda>b. phone_test (class_name nm (b_cls b))) boxes),
      snd st \<or> (\<exists>b \<in> set boxes. phone_test (class_name nm (b_cls b))))"
proof (induction boxes arbitrary: st)
  case Nil
  show ?case by simp
next
  case (Cons b bs)
  show ?case
  proof (cases "phone_test (class_name nm (b_cls b))")
    case True
    then have v: "box_step nm st b =
        (fst st @ [DrawBox (b_xyxy b) (class_name nm (b_cls b)) (b_conf b)], True)"
      by (simp only: box_step_eq if_True)
    show ?thesis
      unfolding foldl_Cons v Cons.IH using True by simp
  next
    case False
    then have v: "box_step nm st b = st"
      by (simp only: box_step_eq if_False)
    show ?thesis
      unfolding foldl_Cons v Cons.IH using False by simp
  qed
qed

text \<open>
  Claim C1. A detection counts as a phone exactly when its class name, lowercased, contains
  \<^verbatim>\<open>phone\<close> (the second clause of the test, \<^verbatim>\<open>cell phone\<close>, adds nothing); the boxes drawn for
  a frame are those of exactly the matching detections, in order; and \<^verbatim>\<open>detected_phone\<close> is
  set exactly when some detection of the frame matches.
\<close>

theorem phone_match_iff_contains_phone:
  "(phone_test name \<longleftrightarrow> py_contains ''phone'' (py_lower name))
   \<and> fst (detect model_names boxes) =
       map (\<lambda>b. DrawBox (b_xyxy b) (class_name model_names (b_cls b)) (b_conf b))
           (filter (\<lambda>b. py_contains ''phone'' (py_lower (class_name model_names (b_cls b)))) boxes)
   \<and> (snd (detect model_names boxes) \<longleftrightarrow>
        (\<exists>b \<in> set boxes. py_contains ''phone'' (py_lower (class_name model_names (b_cls b)))))"
  by (simp add: detect_def foldl_box_step phone_test_iff)

theorem phone_match_iff_contains_phone_witness:
  "phone_test ''Cell Phone''
   \<and> fst (detect coco_names sample_boxes) =
       [DrawBox [1, 2, 3, 4] ''cell phone'' 0.82, DrawBox [7, 7, 9, 9] ''Smartphone'' 0.4]
   \<and> snd (detect coco_names sample_boxes)
   \<and> (\<exists>b \<in> set sample_boxes. py_contains ''phone'' (py_lower (class_name coco_names (b_cls b))))"
proof -
  have n: "py_contains ''phone'' (py_lower ''Cell Phone'')"
    by code_simp
  have v: "detect coco_names sample_boxes =
      ([DrawBox [1, 2, 3, 4] ''cell phone'' 0.82, DrawBox [7, 7, 9, 9] ''Smartphone'' 0.4], True)"
    by code_simp
  from phone_match_iff_contains_phone [of "''Cell Phone''" coco_names sample_boxes] n v
  show ?thesis by simp
qed

subsection \<open>One pass and a run of passes\<close>

lemma printed_append: "printed (xs @ ys) = printed xs @ printed ys"
  by (simp add: printed_def)


lemma printed_Nil: "printed [] = []"
  by (simp add: printed_def)

lemma printed_Cons:
  "printed (e # es) = (case e of Print l \<Rightarrow> [l] | _ \<Rightarrow> []) @ printed es"
  by (simp add: printed_def)



lemma printed_DrawBox: "printed (map (\<lambda>b. DrawBox (f b) (g b) (h b)) bs) = []"
  by (induction bs) (simp_all add: printed_def)


lemma detect_eq:
  "detect nm boxes =
     (map (\<lambda>b. DrawBox (b_xyxy b) (class_name nm (b_cls b)) (b_conf b))
          (filter (\<lambda>b. phone_test (class_name nm (b_cls b))) boxes),
      \<exists>b \<in> set boxes. phone_test (class_name nm (b_cls b)))"
  by (simp add: detect_def foldl_box_step)

lemma printed_detect: "printed (fst (detect nm boxes)) = []"
  by (simp add: detect_eq printed_DrawBox)


text \<open>A pass in which the frame is read and the model returns.\<close>

lemma iteration_frame:
  assumes "t_read t = Inr True" and "t_infer t = Inr boxes"
  shows "iteration a nm s t =
     (let n = frame_count s + 1;
          detected = snd (detect nm boxes);
          evs = [CapRead, Inference (a_conf a)] @ fst (detect nm boxes) @
                [StatusText (status_text detected) (status_colour detected)]
      in if n mod 10 = 0 then
           if t_now t = fps_time s then (evs, Raise ZeroDivisionError)
           else (evs @ [FpsText (10 / (t_now t - fps_time s))] @
                   fst (show_step a (s\<lparr>frame_count := n, fps_time := t_now t\<rparr>) detected (t_key t)),
                 snd (show_step a (s\<lparr>frame_count := n, fps_time := t_now t\<rparr>) detected (t_key t)))
         else (evs @ fst (show_step a (s\<lparr>frame_count := n\<rparr>) detected (t_key t)),
               snd (show_step a (s\<lparr>frame_count := n\<rparr>) detected (t_key t))))"
  using assms
  by (simp add: iteration_def fps_step_def py_truediv_def Let_def case_prod_beta)


lemma show_step_quiet:
  "\<not> a_show a \<Longrightarrow>
     show_step a s d k = ([Print (status_line (frame_count s) d)], Continue s)"
  by (simp add: show_step_def)


lemma show_step_Continue: "snd (show_step a s d k) = Continue s' \<Longrightarrow> s' = s"
  by (simp add: show_step_def split: if_splits)

lemma iteration_Continue:
  assumes "iteration a nm s t = (evs, Continue s')"
  shows "t_read t = Inr True \<and> (\<exists>boxes. t_infer t = Inr boxes)
       \<and> frame_count s' = frame_count s + 1
       \<and> fps_time s' = (if (frame_count s + 1) mod 10 = 0 then t_now t else fps_time s)"
proof -
  from assms obtain ret where r: "t_read t = Inr ret"
    by (cases "t_read t") (simp_all add: iteration_def)
  with assms have ret: "ret"
    by (cases ret) (simp_all add: iteration_def)
  from assms r ret obtain boxes where b: "t_infer t = Inr boxes"
    by (cases "t_infer t") (simp_all add: iteration_def Let_def)
  note fr = iteration_frame [where a = a and nm = nm and s = s, OF r [unfolded eqTrueI [OF ret]] b]
  from assms have c: "snd (iteration a nm s t) = Continue s'" by simp
  have "frame_count s' = frame_count s + 1
       \<and> fps_time s' = (if (frame_count s + 1) mod 10 = 0 then t_now t else fps_time s)"
    using c unfolding fr Let_def
    by (auto split: if_splits dest!: show_step_Continue)
  with r ret b show ?thesis by simp
qed

lemma iteration_quiet:
  assumes "\<not> a_show a" and "iteration a nm s t = (evs, Continue s')"
  shows "printed evs = [status_line (frame_count s + 1) (phone_frame nm t)]"
proof -
  from iteration_Continue [OF assms(2)] obtain boxes
    where r: "t_read t = Inr True" and b: "t_infer t = Inr boxes" by blast
  have p: "phone_frame nm t = snd (detect nm boxes)"
    by (simp add: phone_frame_def b)
  have "printed (fst (iteration a nm s t)) = [status_line (frame_count s + 1) (phone_frame nm t)]"
    unfolding iteration_frame [OF r b] Let_def p
    using assms(2) iteration_frame [OF r b, of a nm s]
    by (auto simp: Let_def show_step_quiet [OF assms(1)] printed_append printed_detect
                   printed_Cons printed_Nil
             split: if_splits)
  with assms(2) show ?thesis by simp
qed

lemma loop_Cons_running:
  assumes "loop a nm s (t # ts) = (evs, Still_running s')"
  shows "\<exists>e1 s1 e2. iteration a nm s t = (e1, Continue s1)
            \<and> loop a nm s1 ts = (e2, Still_running s') \<and> evs = e1 @ e2"
  using assms by (auto split: prod.splits step.splits)

lemma loop_append:
  "loop a nm s pre = (evs, Still_running s') \<Longrightarrow>
     loop a nm s (pre @ ts) = (evs @ fst (loop a nm s' ts), snd (loop a nm s' ts))"
proof (induction pre arbitrary: s evs)
  case Nil
  then show ?case by simp
next
  case (Cons t pre)
  from loop_Cons_running [OF Cons.prems] obtain e1 s1 e2
    where i: "iteration a nm s t = (e1, Continue s1)"
      and l: "loop a nm s1 pre = (e2, Still_running s')" and e: "evs = e1 @ e2" by blast
  show ?case using Cons.IH [OF l] i e by (simp add: case_prod_beta)
qed

lemma loop_quiet_printed:
  assumes q: "\<not> a_show a"
  shows "loop a nm s ts = (evs, Still_running s') \<Longrightarrow>
           printed evs = map2 (\<lambda>k t. status_line k (phone_frame nm t))
                              [frame_count s + 1..frame_count s + int (length ts)] ts
         \<and> frame_count s' = frame_count s + int (length ts)
         \<and> (\<forall>t \<in> set ts. t_read t = Inr True)"
proof (induction ts arbitrary: s evs)
  case Nil
  then show ?case by (simp add: printed_Nil)
next
  case (Cons t ts)
  from loop_Cons_running [OF Cons.prems] obtain e1 s1 e2
    where i: "iteration a nm s t = (e1, Continue s1)"
      and l: "loop a nm s1 ts = (e2, Still_running s')" and e: "evs = e1 @ e2" by blast
  from iteration_Continue [OF i]
  have r: "t_read t = Inr True" and c: "frame_count s1 = frame_count s + 1" by simp_all
  have p1: "printed e1 = [status_line (frame_count s + 1) (phone_frame nm t)]"
    by (rule iteration_quiet [OF q i])
  note ih = Cons.IH [OF l]
  have u: "[frame_count s + 1..frame_count s + int (length (t # ts))] =
           (frame_count s + 1) # [frame_count s1 + 1..frame_count s1 + int (length ts)]"
    unfolding c by (subst upto_rec1) (simp_all add: add.commute add.left_commute)
  show ?case
    unfolding e printed_append p1 u using ih r c by simp
qed








text \<open>
  Claim C8. When the camera does not open, \<^verbatim>\<open>main\<close> prints the error line that ends with the
  requested index and returns: no frame is read, and \<^verbatim>\<open>release\<close> is not called on the handle
  that never opened.
\<close>

theorem camera_open_failure:
  assumes "w_load w = Inr nm" and "\<not> w_opened w"
  shows "main a w =
           ([Print (''Loading model: '' @ a_model a), LoadModel (a_model a),
             OpenCamera (a_cam a),
             Print (''ERROR: Cannot open camera index '' @ py_str (a_cam a))],
            Returned)
       \<and> CapRead \<notin> set (fst (main a w))
       \<and> CapRelease \<notin> set (fst (main a w))"
  using assms by (simp add: main_def)

theorem camera_open_failure_witness:
  "main window_args no_camera_world =
     ([Print ''Loading model: yolov8n.pt'', LoadModel ''yolov8n.pt'', OpenCamera 3,
       Print ''ERROR: Cannot open camera index 3''],
      Returned)
   \<and> CapRead \<notin> set (fst (main window_args no_camera_world))
   \<and> CapRelease \<notin> set (fst (main window_args no_camera_world))"
proof -
  have l: "w_load no_camera_world = Inr coco_names" and o: "\<not> w_opened no_camera_world"
    by (simp_all add: no_camera_world_def)
  have s: "py_str (a_cam window_args) = ''3''"
    by (simp add: window_args_def py_str_def)
  from camera_open_failure [OF l o, of window_args] s
  show ?thesis by (simp add: window_args_def)
qed

text \<open>
  Claim C3, amended. With the preview window off, as long as every pass begun so far has
  run to its end, the console shows one status line per frame read: the \<open>k\<close>-th line carries
  the count \<open>k\<close> and \<^verbatim>\<open>PHONE DETECTED\<close> when the \<open>k\<close>-th frame had a phone-like detection,
  \<^verbatim>\<open>no phone\<close> otherwise; a read that fails after that adds its own message and no status
  line. The witness is the run of 23 frames with a phone on frames 5 and 17.
\<close>

theorem status_line_per_completed_pass:
  assumes "\<not> a_show a"
    and "snd (loop a nm \<lparr>fps_time = t0, frame_count = 0\<rparr> ts) = Still_running s"
  shows "printed (fst (loop a nm \<lparr>fps_time = t0, frame_count = 0\<rparr> ts)) =
           map2 (\<lambda>k t. status_line k (phone_frame nm t)) [1..int (length ts)] ts
       \<and> frame_count s = int (length ts)
       \<and> (\<forall>t \<in> set ts. t_read t = Inr True)
       \<and> (t_read t = Inr False \<longrightarrow>
            snd (loop a nm \<lparr>fps_time = t0, frame_count = 0\<rparr> (ts @ [t])) = Broke
            \<and> printed (fst (loop a nm \<lparr>fps_time = t0, frame_count = 0\<rparr> (ts @ [t]))) =
                map2 (\<lambda>k t. status_line k (phone_frame nm t)) [1..int (length ts)] ts @
                [''Failed to read frame from camera.''])"
proof -
  let ?s0 = "\<lparr>fps_time = t0, frame_count = 0\<rparr>"
  from assms(2)
  have l: "loop a nm ?s0 ts = (fst (loop a nm ?s0 ts), Still_running s)"
    by (simp add: prod_eq_iff)
  from loop_quiet_printed [OF assms(1) l]
  have p: "printed (fst (loop a nm ?s0 ts)) =
           map2 (\<lambda>k t. status_line k (phone_frame nm t)) [1..int (length ts)] ts"
    and c: "frame_count s = int (length ts)"
    and r: "\<forall>t \<in> set ts. t_read t = Inr True"
    by simp_all
  have f: "snd (loop a nm ?s0 (ts @ [t])) = Broke
         \<and> printed (fst (loop a nm ?s0 (ts @ [t]))) =
             map2 (\<lambda>k t. status_line k (phone_frame nm t)) [1..int (length ts)] ts @
             [''Failed to read frame from camera.'']"
    if "t_read t = Inr False"
  proof -
    from that have "loop a nm s [t] = ([CapRead, Print ''Failed to read frame from camera.''], Broke)"
      by (simp add: iteration_def)
    with loop_append [OF l, of "[t]"] p show ?thesis
      by (simp add: printed_append printed_Cons printed_Nil)
  qed
  from p c r f show ?thesis by blast
qed

theorem status_line_per_completed_pass_witness:
  "printed (fst (loop quiet_args coco_names \<lparr>fps_time = 0, frame_count = 0\<rparr> frames23)) =
     [''[1] no phone'', ''[2] no phone'', ''[3] no phone'', ''[4] no phone'',
       ''[5] PHONE DETECTED'', ''[6] no phone'', ''[7] no phone'', ''[8] no phone'',
       ''[9] no phone'', ''[10] no phone'', ''[11] no phone'', ''[12] no phone'',
       ''[13] no phone'', ''[14] no phone'', ''[15] no phone'', ''[16] no phone'',
       ''[17] PHONE DETECTED'', ''[18] no phone'', ''[19] no phone'', ''[20] no phone'',
       ''[21] no phone'', ''[22] no phone'', ''[23] no phone'']
   \<and> length frames23 = 23
   \<and> map (phone_frame coco_names) frames23 =
       [False, False, False, False, True, False, False, False, False, False, False, False,
        False, False, False, False, True, False, False, False, False, False, False]
   \<and> frame_count \<lparr>fps_time = 20, frame_count = 23\<rparr> = int (length frames23)
   \<and> list_all (\<lambda>t. t_read t = Inr True) frames23
   \<and> snd (loop quiet_args coco_names \<lparr>fps_time = 0, frame_count = 0\<rparr> (frames23 @ [failed_read])) =
       Broke
   \<and> printed (fst (loop quiet_args coco_names \<lparr>fps_time = 0, frame_count = 0\<rparr>
                       (frames23 @ [failed_read]))) =
       printed (fst (loop quiet_args coco_names \<lparr>fps_time = 0, frame_count = 0\<rparr> frames23)) @
       [''Failed to read frame from camera.'']
   \<and> snd (main quiet_args unplugged_world) = Returned
   \<and> length (printed (fst (main quiet_args unplugged_world))) = 2 + 23 + 2"
proof -
  have q: "\<not> a_show quiet_args"
    by (simp add: quiet_args_def)
  have r: "snd (loop quiet_args coco_names \<lparr>fps_time = 0, frame_count = 0\<rparr> frames23) =
             Still_running \<lparr>fps_time = 20, frame_count = 23\<rparr>"
    by code_simp
  have n: "length frames23 = 23"
    by (simp add: frames23_def)
  have p: "map (phone_frame coco_names) frames23 =
       [False, False, False, False, True, False, False, False, False, False, False, False,
        False, False, False, False, True, False, False, False, False, False, False]"
    by code_simp
  have m: "map2 (\<lambda>k t. status_line k (phone_frame coco_names t)) [1..int (length frames23)] frames23 =
     [''[1] no phone'', ''[2] no phone'', ''[3] no phone'', ''[4] no phone'',
       ''[5] PHONE DETECTED'', ''[6] no phone'', ''[7] no phone'', ''[8] no phone'',
       ''[9] no phone'', ''[10] no phone'', ''[11] no phone'', ''[12] no phone'',
       ''[13] no phone'', ''[14] no phone'', ''[15] no phone'', ''[16] no phone'',
       ''[17] PHONE DETECTED'', ''[18] no phone'', ''[19] no phone'', ''[20] no phone'',
       ''[21] no phone'', ''[22] no phone'', ''[23] no phone'']"
    by code_simp
  have u: "snd (main quiet_args unplugged_world) = Returned"
    "length (printed (fst (main quiet_args unplugged_world))) = 2 + 23 + 2"
    by code_simp+
  have f: "t_read failed_read = Inr False"
    by (simp add: failed_read_def)
  from status_line_per_completed_pass [OF q r, of failed_read] f
  have "printed (fst (loop quiet_args coco_names \<lparr>fps_time = 0, frame_count = 0\<rparr> frames23)) =
     map2 (\<lambda>k t. status_line k (phone_frame coco_names t)) [1..int (length frames23)] frames23
     \<and> (\<forall>t \<in> set frames23. t_read t = Inr True)
     \<and> snd (loop quiet_args coco_names \<lparr>fps_time = 0, frame_count = 0\<rparr> (frames23 @ [failed_read])) =
         Broke
     \<and> printed (fst (loop quiet_args coco_names \<lparr>fps_time = 0, frame_count = 0\<rparr>
                         (frames23 @ [failed_read]))) =
         map2 (\<lambda>k t. status_line k (phone_frame coco_names t)) [1..int (length frames23)] frames23 @
         [''Failed to read frame from camera.'']"
    by blast
  with n p m u show ?thesis by (simp add: list_all_iff)
qed

text \<open>
  Claim C3, as stated, on a run with the window off in which the one frame is read and the
  user interrupts the model call: one frame read, no status line.
\<close>

theorem frame_read_without_status_line:
  "map t_read (w_ticks interrupted_world) = [Inr True]
   \<and> fst (main quiet_args interrupted_world) =
       [Print ''Loading model: yolov8n.pt'', LoadModel ''yolov8n.pt'', OpenCamera 0,
        Print ''Camera opened. Press 'q' to quit.'', CapRead, Inference 0.35,
        Print ''Interrupted by user.'', CapRelease, DestroyAllWindows, Print ''Exiting.'']
   \<and> printed (fst (main quiet_args interrupted_world)) =
       [''Loading model: yolov8n.pt'', ''Camera opened. Press 'q' to quit.'',
        ''Interrupted by user.'', ''Exiting.'']"
  by (simp add: main_def interrupted_world_def quiet_args_def iteration_def cleanup_def
                printed_def)



text \<open>
  Claim C10. When a pass with a frame count that is a multiple of 10 reads the clock and gets
  the baseline again, the division raises \<^verbatim>\<open>ZeroDivisionError\<close>: the handler for
  \<^verbatim>\<open>KeyboardInterrupt\<close> does not take it (its line is not printed), the \<^verbatim>\<open>finally\<close> block runs,
  and the exception leaves \<^verbatim>\<open>main\<close>.
\<close>

theorem zero_elapsed_raises:
  assumes "w_load w = Inr nm" and "w_opened w" and "w_ticks w = pre @ t # post"
    and "snd (loop a nm \<lparr>fps_time = w_start w, frame_count = 0\<rparr> pre) = Still_running s"
    and "t_read t = Inr True" and "t_infer t = Inr boxes"
    and "(frame_count s + 1) mod 10 = 0" and "t_now t = fps_time s"
  shows "main a w =
           ([Print (''Loading model: '' @ a_model a), LoadModel (a_model a),
             OpenCamera (a_cam a), Print ''Camera opened. Press 'q' to quit.''] @
            fst (loop a nm \<lparr>fps_time = w_start w, frame_count = 0\<rparr> pre) @
            [CapRead, Inference (a_conf a)] @ fst (detect nm boxes) @
            [StatusText (status_text (snd (detect nm boxes)))
                        (status_colour (snd (detect nm boxes)))] @
            [CapRelease, DestroyAllWindows, Print ''Exiting.''],
            Raised ZeroDivisionError)"
proof -
  let ?s0 = "\<lparr>fps_time = w_start w, frame_count = 0\<rparr>"
  from assms(4) have l: "loop a nm ?s0 pre = (fst (loop a nm ?s0 pre), Still_running s)"
    by (simp add: prod_eq_iff)
  have i: "iteration a nm s t =
      ([CapRead, Inference (a_conf a)] @ fst (detect nm boxes) @
         [StatusText (status_text (snd (detect nm boxes))) (status_colour (snd (detect nm boxes)))],
       Raise ZeroDivisionError)"
    unfolding iteration_frame [OF assms(5,6)] Let_def using assms(7,8) by simp
  have "loop a nm s (t # post) =
      ([CapRead, Inference (a_conf a)] @ fst (detect nm boxes) @
         [StatusText (status_text (snd (detect nm boxes))) (status_colour (snd (detect nm boxes)))],
       Threw ZeroDivisionError)"
    unfolding loop.simps i by simp
  with loop_append [OF l, of "t # post"]
  have "loop a nm ?s0 (w_ticks w) =
      (fst (loop a nm ?s0 pre) @ [CapRead, Inference (a_conf a)] @ fst (detect nm boxes) @
         [StatusText (status_text (snd (detect nm boxes))) (status_colour (snd (detect nm boxes)))],
       Threw ZeroDivisionError)"
    unfolding assms(3) by simp
  then show ?thesis
    using assms(1,2) by (simp add: main_def cleanup_def)
qed

theorem zero_elapsed_raises_witness:
  "main quiet_args stalled_clock_world =
     ([Print ''Loading model: yolov8n.pt'', LoadModel ''yolov8n.pt'',
       OpenCamera 0, Print ''Camera opened. Press 'q' to quit.''] @
      fst (loop quiet_args coco_names \<lparr>fps_time = 0, frame_count = 0\<rparr> (replicate 9 (plain_tick 0))) @
      [CapRead, Inference 0.35, StatusText ''no phone'' (0, 0, 255),
       CapRelease, DestroyAllWindows, Print ''Exiting.''],
      Raised ZeroDivisionError)
   \<and> printed (fst (main quiet_args stalled_clock_world)) =
       [''Loading model: yolov8n.pt'', ''Camera opened. Press 'q' to quit.'',
        ''[1] no phone'', ''[2] no phone'', ''[3] no phone'', ''[4] no phone'', ''[5] no phone'',
        ''[6] no phone'', ''[7] no phone'', ''[8] no phone'', ''[9] no phone'', ''Exiting.'']"
proof -
  have l: "w_load stalled_clock_world = Inr coco_names" and o: "w_opened stalled_clock_world"
    and st: "w_start stalled_clock_world = 0"
    by (simp_all add: stalled_clock_world_def)
  have k: "w_ticks stalled_clock_world = replicate 9 (plain_tick 0) @ plain_tick 0 # []"
    by (simp add: stalled_clock_world_def replicate_append_same numeral_eq_Suc)
  have r: "snd (loop quiet_args coco_names \<lparr>fps_time = w_start stalled_clock_world, frame_count = 0\<rparr>
                  (replicate 9 (plain_tick 0))) = Still_running \<lparr>fps_time = 0, frame_count = 9\<rparr>"
    unfolding st by code_simp
  have t1: "t_read (plain_tick 0) = Inr True" and t2: "t_infer (plain_tick 0) = Inr []"
    and t3: "t_now (plain_tick 0) = fps_time \<lparr>fps_time = 0, frame_count = 9\<rparr>"
    by (simp_all add: plain_tick_def)
  have m: "(frame_count \<lparr>fps_time = 0, frame_count = 9\<rparr> + 1) mod 10 = 0"
    by simp
  have d: "detect coco_names [] = ([], False)"
    by (simp add: detect_def)
  have p: "printed (fst (main quiet_args stalled_clock_world)) =
       [''Loading model: yolov8n.pt'', ''Camera opened. Press 'q' to quit.'',
        ''[1] no phone'', ''[2] no phone'', ''[3] no phone'', ''[4] no phone'', ''[5] no phone'',
        ''[6] no phone'', ''[7] no phone'', ''[8] no phone'', ''[9] no phone'', ''Exiting.'']"
    by code_simp
  from zero_elapsed_raises [OF l o k r t1 t2 m t3, of ] p d st
  show ?thesis
    by (simp add: quiet_args_def status_text_def status_colour_def)
qed

section \<open>Properties of \<^verbatim>\<open>get_camera_names\<close>\<close>

subsection \<open>Device-path lines\<close>

lemma split_from_not_Nil: "split_from sep cur s \<noteq> []"
  by (induction sep cur s rule: split_from.induct) auto

lemma split_from_contains:
  "py_contains sep s \<Longrightarrow> sep \<noteq> [] \<Longrightarrow> 2 \<le> length (split_from sep cur s)"
proof (induction sep cur s rule: split_from.induct)
  case (1 sep cur)
  then show ?case by simp
next
  case (2 sep cur c cs)
  show ?case
  proof (cases "py_startswith (c # cs) sep")
    case True
    have "split_from sep [] (drop (length sep - 1) cs) \<noteq> []"
      by (rule split_from_not_Nil)
    then have "1 \<le> length (split_from sep [] (drop (length sep - 1) cs))"
      by (cases "split_from sep [] (drop (length sep - 1) cs)") simp_all
    with True show ?thesis by simp
  next
    case False
    with "2.prems" have "py_contains sep cs" by simp
    from "2.IH"(2) [OF False this "2.prems"(2)] False show ?thesis by simp
  qed
qed

lemma split_from_absent:
  "\<not> py_contains sep s \<Longrightarrow> split_from sep cur s = [cur @ s]"
  by (induction sep cur s rule: split_from.induct) auto

lemma contains_dev_video: "py_contains ''/dev/video'' s \<Longrightarrow> py_contains ''video'' s"
proof -
  assume "py_contains ''/dev/video'' s"
  then obtain a b where "s = a @ ''/dev/video'' @ b" unfolding py_contains_iff by blast
  then have "s = (a @ ''/dev/'') @ ''video'' @ b" by simp
  then show ?thesis unfolding py_contains_iff by blast
qed

lemma py_int_error: "py_int mx s = Inl e \<Longrightarrow> e = ValueError"
  by (auto simp: py_int_def split: list.splits if_splits option.splits)

lemma path_index_segment:
  assumes "py_contains ''/dev/video'' p"
  shows "py_index (split_from ''video'' [] p) 1 = Inr (split_from ''video'' [] p ! 1)
       \<and> path_index mx p = py_int mx (split_from ''video'' [] p ! 1)"
proof -
  have "2 \<le> length (split_from ''video'' [] p)"
    by (rule split_from_contains [OF contains_dev_video [OF assms]]) simp
  then have "py_index (split_from ''video'' [] p) 1 = Inr (split_from ''video'' [] p ! 1)"
    by (simp add: py_index_def)
  then show ?thesis by (simp add: path_index_def py_split_def)
qed

lemma v4l_line_path:
  assumes "py_startswith line [CHR 0x09]" and "py_contains ''/dev/video'' (py_strip line)"
  shows "v4l_line mx s line =
           Inr (case py_int mx (split_from ''video'' [] (py_strip line) ! 1) of
                  Inl e \<Rightarrow> s
                | Inr idx \<Rightarrow> s\<lparr>v_names := (v_names s)(idx \<mapsto> dev_name s)\<rparr>)"
proof (cases "py_int mx (split_from ''video'' [] (py_strip line) ! 1)")
  case (Inl e)
  from py_int_error [OF Inl] have "is_ValueError e" by simp
  with Inl assms path_index_segment [OF assms(2)] show ?thesis
    by (simp add: v4l_line_def Let_def)
next
  case (Inr idx)
  with assms path_index_segment [OF assms(2)] show ?thesis
    by (simp add: v4l_line_def Let_def)
qed

lemma v4l_line_total: "\<exists>s'. v4l_line mx s line = Inr s'"
proof (cases "py_startswith line [CHR 0x09] \<and> py_contains ''/dev/video'' (py_strip line)")
  case True
  then show ?thesis using v4l_line_path [of line mx s] by simp
next
  case False
  then show ?thesis by (auto simp: v4l_line_def Let_def)
qed

lemma v4l_lines_no_exception: "snd (v4l_lines mx s ls) = None"
proof (induction ls arbitrary: s)
  case Nil
  show ?case by simp
next
  case (Cons l ls)
  from v4l_line_total [of mx s l] obtain s' where "v4l_line mx s l = Inr s'" by blast
  with Cons.IH [of s'] show ?case by simp
qed

lemma linux_names_no_exception: "snd (linux_names mx nm stdout) = None"
  using v4l_lines_no_exception
  by (simp add: linux_names_def Let_def case_prod_beta)

lemma split_dev_video:
  "split_from ''video'' [] (''/dev/video'' @ t) = ''/dev/'' # split_from ''video'' [] t"
  by (simp add: py_startswith_def)

lemma v4l_line_plain_path:
  assumes "py_startswith line [CHR 0x09]" and "py_strip line = ''/dev/video'' @ t"
    and "\<not> py_contains ''video'' t"
  shows "v4l_line mx s line =
           Inr (case py_int mx t of
                  Inl e \<Rightarrow> s
                | Inr idx \<Rightarrow> s\<lparr>v_names := (v_names s)(idx \<mapsto> dev_name s)\<rparr>)"
proof -
  have "py_strip line = [] @ ''/dev/video'' @ t" using assms(2) by simp
  then have c: "py_contains ''/dev/video'' (py_strip line)"
    unfolding py_contains_iff by blast
  have "split_from ''video'' [] (py_strip line) ! 1 = t"
    unfolding assms(2) split_dev_video by (simp add: split_from_absent [OF assms(3)])
  with v4l_line_path [OF assms(1) c, of mx s] show ?thesis by simp
qed

subsection \<open>The first line of the stripped output\<close>

lemma strip_with_hd: "strip_with ws s = c # cs \<Longrightarrow> \<not> ws c"
proof -
  assume a: "strip_with ws s = c # cs"
  let ?v = "dropWhile ws s"
  have "rev ?v = takeWhile ws (rev ?v) @ dropWhile ws (rev ?v)" by simp
  then have "?v = rev (dropWhile ws (rev ?v)) @ rev (takeWhile ws (rev ?v))"
    by (metis rev_append rev_rev_ident)
  with a have "?v = c # (cs @ rev (takeWhile ws (rev ?v)))"
    by (simp add: strip_with_def)
  then show "\<not> ws c" by (simp add: dropWhile_eq_Cons_conv)
qed

lemma linebreak_isspace: "is_linebreak c \<Longrightarrow> py_isspace c"
  by (auto simp: is_linebreak_def py_isspace_def Let_def)

lemma tab_isspace: "py_isspace (CHR 0x09)"
  by (simp add: py_isspace_def)

lemma splitlines_from_prefix:
  "splitlines_from cur u = l # ls \<Longrightarrow> \<exists>r. l = cur @ r"
proof (induction cur u arbitrary: l ls rule: splitlines_from.induct)
  case (1 cur)
  then show ?case by (auto split: if_splits)
next
  case (2 cur c)
  then show ?case by (auto split: if_splits)
next
  case (3 cur c d ds)
  show ?case
  proof (cases "(c = CHR 0x0D \<and> d = CHR 0x0A) \<or> is_linebreak c")
    case True
    with "3.prems" show ?thesis by (auto split: if_splits)
  next
    case False
    with "3.prems" have "splitlines_from (cur @ [c]) (d # ds) = l # ls"
      by (auto split: if_splits)
    from "3.IH"(3) [OF _ _ this] False obtain r where "l = (cur @ [c]) @ r" by auto
    then have "l = cur @ (c # r)" by simp
    then show ?thesis ..
  qed
qed

lemma first_line_not_indented:
  assumes "py_splitlines (py_strip s) = l # ls"
  shows "\<not> py_startswith l [CHR 0x09]"
proof (cases "py_strip s")
  case Nil
  with assms show ?thesis by (simp add: py_splitlines_def)
next
  case (Cons c cs)
  then have "\<not> py_isspace c" unfolding py_strip_def by (rule strip_with_hd)
  then have nl: "\<not> is_linebreak c" and nt: "c \<noteq> CHR 0x09"
    using linebreak_isspace tab_isspace by auto
  have cr: "c \<noteq> CHR 0x0D" using nl by (auto simp: is_linebreak_def)
  have "\<exists>r. l = c # r"
  proof (cases cs)
    case Nil
    with assms \<open>py_strip s = c # cs\<close> nl have "l = [c]"
      by (simp add: py_splitlines_def)
    then show ?thesis by simp
  next
    case (Cons d ds)
    with assms \<open>py_strip s = c # cs\<close> nl cr
    have "splitlines_from [c] (d # ds) = l # ls"
      by (simp add: py_splitlines_def)
    from splitlines_from_prefix [OF this] show ?thesis by simp
  qed
  with nt show ?thesis by (auto simp: py_startswith_def)
qed

text \<open>The loop keeps the dictionary free of \<^verbatim>\<open>None\<close> once \<^verbatim>\<open>dev_name\<close> is a string.\<close>

lemma v4l_line_named:
  assumes "v4l_line mx s l = Inr s'" and "dev_name s \<noteq> None" and "\<forall>i. v_names s i \<noteq> Some None"
  shows "dev_name s' \<noteq> None \<and> (\<forall>i. v_names s' i \<noteq> Some None)"
  using assms
  by (auto simp: v4l_line_def Let_def split: if_splits sum.splits)

lemma v4l_lines_named:
  "dev_name s \<noteq> None \<Longrightarrow> \<forall>i. v_names s i \<noteq> Some None \<Longrightarrow>
     \<forall>i. v_names (fst (v4l_lines mx s ls)) i \<noteq> Some None"
proof (induction ls arbitrary: s)
  case Nil
  then show ?case by simp
next
  case (Cons l ls)
  from v4l_line_total [of mx s l] obtain s' where s': "v4l_line mx s l = Inr s'" by blast
  from v4l_line_named [OF s' Cons.prems] Cons.IH [of s'] s' show ?case by simp
qed

lemma linux_names_strings:
  assumes "\<forall>i. nm i \<noteq> Some None"
  shows "fst (linux_names mx nm stdout) idx \<noteq> Some None"
proof (cases "py_splitlines (py_strip stdout)")
  case Nil
  with assms show ?thesis by (simp add: linux_names_def)
next
  case (Cons l ls)
  then have n: "\<not> py_startswith l [CHR 0x09]" by (rule first_line_not_indented)
  let ?s = "\<lparr>v_names = nm, dev_name = Some (py_strip l)\<rparr>"
  have "v4l_lines mx \<lparr>v_names = nm, dev_name = None\<rparr> (l # ls) = v4l_lines mx ?s ls"
    using n by (simp add: v4l_line_def)
  moreover have "\<forall>i. v_names (fst (v4l_lines mx ?s ls)) i \<noteq> Some None"
    by (rule v4l_lines_named) (simp_all add: assms)
  ultimately show ?thesis
    using Cons by (simp add: linux_names_def Let_def case_prod_beta)
qed

lemma enumerate_into_strings:
  "\<forall>i. nm i \<noteq> Some None \<Longrightarrow> enumerate_into nm k xs idx \<noteq> Some None"
  by (induction nm k xs rule: enumerate_into.induct) auto

subsection \<open>What \<^verbatim>\<open>int\<close> accepts\<close>

lemma digit_not_int_space: "is_digit c \<Longrightarrow> \<not> int_space c"
  by (auto simp: is_digit_def int_space_def Let_def)

lemma digits_from_digits:
  "list_all is_digit t \<Longrightarrow> t \<noteq> [] \<or> prev \<Longrightarrow> \<exists>n. digits_from acc prev t = Some n"
  by (induction t arbitrary: acc prev) auto

lemma strip_with_digits:
  assumes "list_all is_digit t"
  shows "strip_with int_space t = t"
proof (cases "t = []")
  case True
  then show ?thesis by (simp add: strip_with_def)
next
  case False
  with assms have "is_digit (hd t)" and "is_digit (last t)"
    by (auto simp: list_all_iff)
  then have h: "\<not> int_space (hd t)" and l: "\<not> int_space (hd (rev t))"
    using False by (simp_all add: digit_not_int_space hd_rev)
  from h have "dropWhile int_space t = t"
    by (simp add: dropWhile_eq_self_iff)
  moreover from l have "dropWhile int_space (rev t) = rev t"
    by (simp add: dropWhile_eq_self_iff)
  ultimately show ?thesis by (simp add: strip_with_def)
qed

lemma filter_digits: "list_all is_digit t \<Longrightarrow> filter is_digit t = t"
  by (simp add: list_all_iff)

lemma py_int_digits:
  assumes "t \<noteq> []" and "list_all is_digit t" and "\<not> over_limit mx (length t)"
  shows "\<exists>n. py_int mx t = Inr (int n)"
proof -
  from assms obtain c cs where t: "t = c # cs" by (cases t) auto
  with assms(2) have "is_digit c" by simp
  then have s: "c \<noteq> CHR ''-''" "c \<noteq> CHR ''+''"
    by (auto simp: is_digit_def)
  from digits_from_digits [OF assms(2), of False 0] assms(1)
  obtain n where "digits_from 0 False t = Some n" by auto
  with assms(3) have "int_digits mx t = Some n"
    by (simp add: int_digits_def filter_digits [OF assms(2)])
  with s t strip_with_digits [OF assms(2)] show ?thesis
    by (auto simp: py_int_def)
qed

lemma py_int_over_limit:
  assumes "list_all is_digit t" and "over_limit mx (length t)"
  shows "py_int mx t = Inl ValueError"
proof -
  from assms(2) have "t \<noteq> []" by (auto simp: over_limit_def)
  then obtain c cs where t: "t = c # cs" by (cases t) auto
  with assms(1) have "is_digit c" by simp
  then have s: "c \<noteq> CHR ''-''" "c \<noteq> CHR ''+''"
    by (auto simp: is_digit_def)
  from assms have "int_digits mx t = None"
    by (simp add: int_digits_def filter_digits)
  with s t strip_with_digits [OF assms(1)] show ?thesis
    by (auto simp: py_int_def)
qed

lemma digits_without_video: "list_all is_digit t \<Longrightarrow> \<not> py_contains ''video'' t"
proof
  assume d: "list_all is_digit t" and "py_contains ''video'' t"
  then obtain a b where "t = a @ ''video'' @ b" unfolding py_contains_iff by blast
  then have "CHR ''v'' \<in> set t" by simp
  with d have "is_digit CHR ''v''" by (simp add: list_all_iff)
  then show False by (simp add: is_digit_def)
qed

lemma digit_not_isspace: "is_digit c \<Longrightarrow> \<not> py_isspace c"
  by (auto simp: is_digit_def py_isspace_def Let_def)

lemma strip_digit_path:
  assumes "t \<noteq> []" and "list_all is_digit t"
  shows "py_strip (CHR 0x09 # ''/dev/video'' @ t) = ''/dev/video'' @ t"
proof -
  from assms have "is_digit (last t)" by (simp add: list_all_iff)
  then have "\<not> py_isspace (hd (rev (''/dev/video'' @ t)))"
    using assms(1) by (simp add: digit_not_isspace hd_rev)
  then have "dropWhile py_isspace (rev (''/dev/video'' @ t)) = rev (''/dev/video'' @ t)"
    by (simp add: dropWhile_eq_self_iff)
  moreover have "dropWhile py_isspace (CHR 0x09 # ''/dev/video'' @ t) = ''/dev/video'' @ t"
    by (simp add: py_isspace_def)
  ultimately show ?thesis
    by (simp only: py_strip_def strip_with_def rev_rev_ident)
qed

lemma v4l_line_digit_path:
  assumes "t \<noteq> []" and "list_all is_digit t"
  shows "v4l_line mx s (CHR 0x09 # ''/dev/video'' @ t) =
           Inr (case py_int mx t of
                  Inl e \<Rightarrow> s
                | Inr idx \<Rightarrow> s\<lparr>v_names := (v_names s)(idx \<mapsto> dev_name s)\<rparr>)"
proof (rule v4l_line_plain_path)
  show "py_startswith (CHR 0x09 # ''/dev/video'' @ t) [CHR 0x09]"
    by (simp add: py_startswith_def)
  show "py_strip (CHR 0x09 # ''/dev/video'' @ t) = ''/dev/video'' @ t"
    by (rule strip_digit_path [OF assms])
  show "\<not> py_contains ''video'' t"
    by (rule digits_without_video [OF assms(2)])
qed

text \<open>
  Claim C5, amended. The Linux branch never ends in an exception. For an indented line whose
  stripped text contains \<^verbatim>\<open>/dev/video\<close>, the text between the first and the second \<^verbatim>\<open>video\<close>
  is handed to \<^verbatim>\<open>int\<close>: when \<^verbatim>\<open>int\<close> rejects it the line changes nothing, when \<^verbatim>\<open>int\<close> accepts
  it the parsed value is bound to the current device name. For a line that is
  \<^verbatim>\<open>/dev/video\<close> followed by a text \<open>t\<close> without \<^verbatim>\<open>video\<close>, that text is \<open>t\<close>. When \<open>t\<close> is a
  non-empty string of digits, the line binds a non-negative key if the number of digits is
  within the interpreter's limit, and is skipped if it is over the limit.
\<close>

theorem device_path_line:
  "snd (linux_names mx nm stdout) = None
   \<and> (py_startswith line [CHR 0x09] \<and> py_contains ''/dev/video'' (py_strip line) \<longrightarrow>
        v4l_line mx s line =
          Inr (case py_int mx (split_from ''video'' [] (py_strip line) ! 1) of
                 Inl e \<Rightarrow> s
               | Inr idx \<Rightarrow> s\<lparr>v_names := (v_names s)(idx \<mapsto> dev_name s)\<rparr>))
   \<and> (py_startswith line [CHR 0x09] \<and> py_strip line = ''/dev/video'' @ t
        \<and> \<not> py_contains ''video'' t \<longrightarrow>
        v4l_line mx s line =
          Inr (case py_int mx t of
                 Inl e \<Rightarrow> s
               | Inr idx \<Rightarrow> s\<lparr>v_names := (v_names s)(idx \<mapsto> dev_name s)\<rparr>))
   \<and> (d \<noteq> [] \<and> list_all is_digit d \<and> \<not> over_limit mx (length d) \<longrightarrow>
        (\<exists>n. v4l_line mx s (CHR 0x09 # ''/dev/video'' @ d) =
               Inr (s\<lparr>v_names := (v_names s)(int n \<mapsto> dev_name s)\<rparr>)))
   \<and> (list_all is_digit d \<and> over_limit mx (length d) \<longrightarrow>
        v4l_line mx s (CHR 0x09 # ''/dev/video'' @ d) = Inr s)"
proof (intro conjI impI)
  show "snd (linux_names mx nm stdout) = None"
    by (rule linux_names_no_exception)
next
  assume "py_startswith line [CHR 0x09] \<and> py_contains ''/dev/video'' (py_strip line)"
  then show "v4l_line mx s line =
          Inr (case py_int mx (split_from ''video'' [] (py_strip line) ! 1) of
                 Inl e \<Rightarrow> s
               | Inr idx \<Rightarrow> s\<lparr>v_names := (v_names s)(idx \<mapsto> dev_name s)\<rparr>)"
    using v4l_line_path by blast
next
  assume "py_startswith line [CHR 0x09] \<and> py_strip line = ''/dev/video'' @ t
        \<and> \<not> py_contains ''video'' t"
  then show "v4l_line mx s line =
          Inr (case py_int mx t of
                 Inl e \<Rightarrow> s
               | Inr idx \<Rightarrow> s\<lparr>v_names := (v_names s)(idx \<mapsto> dev_name s)\<rparr>)"
    using v4l_line_plain_path by blast
next
  assume a: "d \<noteq> [] \<and> list_all is_digit d \<and> \<not> over_limit mx (length d)"
  then obtain n where "py_int mx d = Inr (int n)"
    using py_int_digits by blast
  with a v4l_line_digit_path [of d mx s]
  show "\<exists>n. v4l_line mx s (CHR 0x09 # ''/dev/video'' @ d) =
               Inr (s\<lparr>v_names := (v_names s)(int n \<mapsto> dev_name s)\<rparr>)"
    by auto
next
  assume a: "list_all is_digit d \<and> over_limit mx (length d)"
  then have "d \<noteq> []" by (auto simp: over_limit_def)
  with a v4l_line_digit_path [of d mx s] py_int_over_limit [of d mx]
  show "v4l_line mx s (CHR 0x09 # ''/dev/video'' @ d) = Inr s"
    by simp
qed

theorem device_path_line_witness:
  "snd (linux_names 4300 Map.empty listing_usual) = None
   \<and> v4l_line 4300 \<lparr>v_names = Map.empty, dev_name = Some ''Cam''\<rparr> (CHR 0x09 # ''/dev/video2'') =
       Inr \<lparr>v_names = [2 \<mapsto> Some ''Cam''], dev_name = Some ''Cam''\<rparr>
   \<and> v4l_line 4300 \<lparr>v_names = Map.empty, dev_name = Some ''Cam''\<rparr> (CHR 0x09 # ''/dev/videoX'') =
       Inr \<lparr>v_names = Map.empty, dev_name = Some ''Cam''\<rparr>
   \<and> v4l_line 4300 \<lparr>v_names = Map.empty, dev_name = Some ''Cam''\<rparr>
         (CHR 0x09 # ''/dev/video1video'') =
       Inr \<lparr>v_names = [1 \<mapsto> Some ''Cam''], dev_name = Some ''Cam''\<rparr>
   \<and> (\<exists>n. v4l_line 4300 \<lparr>v_names = Map.empty, dev_name = Some ''Cam''\<rparr>
               (CHR 0x09 # ''/dev/video'' @ ''007'') =
            Inr \<lparr>v_names = [int n \<mapsto> Some ''Cam''], dev_name = Some ''Cam''\<rparr>)
   \<and> v4l_line 4300 \<lparr>v_names = Map.empty, dev_name = Some ''Cam''\<rparr>
         (CHR 0x09 # ''/dev/video'' @ replicate 4301 CHR ''1'') =
       Inr \<lparr>v_names = Map.empty, dev_name = Some ''Cam''\<rparr>"
proof -
  let ?s = "\<lparr>v_names = Map.empty, dev_name = Some ''Cam''\<rparr>"
  have a'': "py_startswith (CHR 0x09 # ''/dev/video1video'') [CHR 0x09]"
    and b'': "py_contains ''/dev/video'' (py_strip (CHR 0x09 # ''/dev/video1video''))"
    and d'': "py_int 4300 (split_from ''video'' [] (py_strip (CHR 0x09 # ''/dev/video1video'')) ! 1) =
              Inr 1"
    by code_simp+
  have a: "py_startswith (CHR 0x09 # ''/dev/video2'') [CHR 0x09]"
    and b: "py_strip (CHR 0x09 # ''/dev/video2'') = ''/dev/video'' @ ''2''"
    and c: "\<not> py_contains ''video'' ''2''"
    and d: "py_int 4300 ''2'' = Inr 2"
    by code_simp+
  have a': "py_startswith (CHR 0x09 # ''/dev/videoX'') [CHR 0x09]"
    and b': "py_strip (CHR 0x09 # ''/dev/videoX'') = ''/dev/video'' @ ''X''"
    and c': "\<not> py_contains ''video'' ''X''"
    and d': "py_int 4300 ''X'' = Inl ValueError"
    by code_simp+
  have e: "''007'' \<noteq> [] \<and> list_all is_digit ''007'' \<and> \<not> over_limit 4300 (length ''007'')"
    by code_simp
  have f: "list_all is_digit (replicate 4301 CHR ''1'')
           \<and> over_limit 4300 (length (replicate 4301 CHR ''1''))"
    by (simp add: list_all_iff is_digit_def over_limit_def)
  note t1 = device_path_line [of 4300 Map.empty listing_usual "CHR 0x09 # ''/dev/video1video''"
                                 ?s "''2''" "''007''"]
  note t2 = device_path_line [of 4300 Map.empty listing_usual "CHR 0x09 # ''/dev/video2''"
                                 ?s "''2''" "replicate 4301 CHR ''1''"]
  note tX = device_path_line [of 4300 Map.empty listing_usual "CHR 0x09 # ''/dev/videoX''"
                                 ?s "''X''" "''007''"]
  from t2 have 1: "snd (linux_names 4300 Map.empty listing_usual) = None" by (rule conjunct1)
  from t2 a b c have "v4l_line 4300 ?s (CHR 0x09 # ''/dev/video2'') =
      Inr (case py_int 4300 ''2'' of Inl e \<Rightarrow> ?s
           | Inr idx \<Rightarrow> ?s\<lparr>v_names := (v_names ?s)(idx \<mapsto> dev_name ?s)\<rparr>)"
    by blast
  then have 2: "v4l_line 4300 ?s (CHR 0x09 # ''/dev/video2'') =
       Inr \<lparr>v_names = [2 \<mapsto> Some ''Cam''], dev_name = Some ''Cam''\<rparr>"
    unfolding d by simp
  from tX a' b' c' have "v4l_line 4300 ?s (CHR 0x09 # ''/dev/videoX'') =
      Inr (case py_int 4300 ''X'' of Inl e \<Rightarrow> ?s
           | Inr idx \<Rightarrow> ?s\<lparr>v_names := (v_names ?s)(idx \<mapsto> dev_name ?s)\<rparr>)"
    by blast
  then have 3: "v4l_line 4300 ?s (CHR 0x09 # ''/dev/videoX'') = Inr ?s"
    unfolding d' by simp
  from t1 a'' b'' have "v4l_line 4300 ?s (CHR 0x09 # ''/dev/video1video'') =
      Inr (case py_int 4300 (split_from ''video'' [] (py_strip (CHR 0x09 # ''/dev/video1video'')) ! 1) of
             Inl e \<Rightarrow> ?s
           | Inr idx \<Rightarrow> ?s\<lparr>v_names := (v_names ?s)(idx \<mapsto> dev_name ?s)\<rparr>)"
    by blast
  then have 4: "v4l_line 4300 ?s (CHR 0x09 # ''/dev/video1video'') =
       Inr \<lparr>v_names = [1 \<mapsto> Some ''Cam''], dev_name = Some ''Cam''\<rparr>"
    unfolding d'' by simp
  from t1 e have "\<exists>n. v4l_line 4300 ?s (CHR 0x09 # ''/dev/video'' @ ''007'') =
               Inr (?s\<lparr>v_names := (v_names ?s)(int n \<mapsto> dev_name ?s)\<rparr>)"
    by blast
  then have 5: "\<exists>n. v4l_line 4300 ?s (CHR 0x09 # ''/dev/video'' @ ''007'') =
            Inr \<lparr>v_names = [int n \<mapsto> Some ''Cam''], dev_name = Some ''Cam''\<rparr>"
    by simp
  from t2 f have 6: "v4l_line 4300 ?s (CHR 0x09 # ''/dev/video'' @ replicate 4301 CHR ''1'') = Inr ?s"
    by blast
  from 1 2 3 4 5 6 show ?thesis by blast
qed

text \<open>
  Claim C5, as stated, on the output \<^verbatim>\<open>Cam\<close>, then the indented line \<^verbatim>\<open>/dev/video-3\<close>: the
  characters after the prefix are \<^verbatim>\<open>-3\<close>, not a non-negative integer, and the mapping
  returned binds the key \<open>-3\<close>.
\<close>

theorem signed_index_is_stored:
  "py_splitlines (py_strip listing_negative) = [''Cam'', CHR 0x09 # ''/dev/video-3'']
   \<and> drop (length ''/dev/video'') (py_strip (CHR 0x09 # ''/dev/video-3'')) = ''-3''
   \<and> \<not> list_all is_digit ''-3''
   \<and> \<not> isl (snd (get_camera_names (linux_host listing_negative)))
   \<and> projr (snd (get_camera_names (linux_host listing_negative))) (- 3) = Some (Some ''Cam'')"
  by code_simp

text \<open>
  Claim C9, as stated, on an output whose first line is the indented path \<^verbatim>\<open>/dev/video0\<close>,
  with no device name before it: the mapping returned has no entry for 0, so none bound to
  \<^verbatim>\<open>None\<close>.
\<close>

theorem indented_first_line_binds_nothing:
  "py_startswith listing_path_first [CHR 0x09]
   \<and> py_contains ''/dev/video'' listing_path_first
   \<and> \<not> isl (snd (get_camera_names (linux_host listing_path_first)))
   \<and> projr (snd (get_camera_names (linux_host listing_path_first))) 0 = None"
  by code_simp

subsection \<open>The whole function\<close>

lemma ImportError_is_Exception: "is_ImportError e \<Longrightarrow> is_Exception e"
  by (cases e) simp_all

lemma names_body_strings: "fst (snd (names_body h)) idx \<noteq> Some None"
proof -
  have e: "\<forall>i. Map.empty i \<noteq> Some (None :: string option)" by simp
  show ?thesis
    using linux_names_strings [OF e] enumerate_into_strings [OF e]
    by (auto simp: names_body_def darwin_names_def Let_def split: sum.splits prod.splits)
qed

text \<open>
  Claim C9, amended. Every value of the mapping that \<^verbatim>\<open>get_camera_names\<close> returns is a
  string, never \<^verbatim>\<open>None\<close>: in the Linux branch the output is stripped before it is cut into
  lines, so the first line is never indented and \<^verbatim>\<open>dev_name\<close> is a string before the first
  device-path line is met.
\<close>

theorem camera_names_are_strings:
  assumes "snd (get_camera_names h) = Inr nm"
  shows "nm idx \<noteq> Some None"
proof -
  from assms have "nm = fst (snd (names_body h))"
    by (auto simp: get_camera_names_def split: prod.splits option.splits if_splits)
  then show ?thesis by (simp add: names_body_strings)
qed

theorem camera_names_are_strings_witness:
  "projr (snd (get_camera_names (linux_host listing_usual))) 0 \<noteq> Some None
   \<and> projr (snd (get_camera_names (linux_host listing_usual))) 0 =
       Some (Some ''HD Webcam (usb-0000:00:14.0-1):'')
   \<and> projr (snd (get_camera_names (linux_host listing_usual))) 2 = Some (Some ''Capture card:'')
   \<and> projr (snd (get_camera_names (linux_host listing_path_first))) 0 \<noteq> Some None"
proof -
  have r: "\<not> isl (snd (get_camera_names (linux_host listing_usual)))"
    and r': "\<not> isl (snd (get_camera_names (linux_host listing_path_first)))"
    by code_simp+
  then have i: "snd (get_camera_names (linux_host listing_usual)) =
                  Inr (projr (snd (get_camera_names (linux_host listing_usual))))"
    and i': "snd (get_camera_names (linux_host listing_path_first)) =
                  Inr (projr (snd (get_camera_names (linux_host listing_path_first))))"
    by simp_all
  have v: "projr (snd (get_camera_names (linux_host listing_usual))) 0 =
       Some (Some ''HD Webcam (usb-0000:00:14.0-1):'')"
    "projr (snd (get_camera_names (linux_host listing_usual))) 2 = Some (Some ''Capture card:'')"
    by code_simp+
  from camera_names_are_strings [OF i, of 0] camera_names_are_strings [OF i', of 0] v
  show ?thesis by blast
qed

text \<open>
  Claim C6, as stated, on a Linux host where the user interrupts the listing tool:
  \<^verbatim>\<open>KeyboardInterrupt\<close> is not an \<^verbatim>\<open>Exception\<close>, the handler does not take it, and it leaves
  \<^verbatim>\<open>get_camera_names\<close>.
\<close>

theorem interrupt_leaves_get_camera_names:
  "get_camera_names linux_interrupted = ([], Inl KeyboardInterrupt)"
  by (simp add: get_camera_names_def names_body_def linux_interrupted_def)

text \<open>
  Claim C6, amended. \<^verbatim>\<open>get_camera_names\<close> raises exactly when the external part of the branch
  of the host's system raises an exception that is not an instance of \<^verbatim>\<open>Exception\<close>. When
  that part raises an instance of \<^verbatim>\<open>Exception\<close> (a missing tool, a missing library), the
  function returns the mapping built so far, which is empty, after printing the tip (for an
  \<^verbatim>\<open>ImportError\<close> on Windows) or the error line. \<^verbatim>\<open>list_camera_indexes\<close> returns a list for
  every capture library, and an index that does not open or gives no frame is not in it.
\<close>

theorem get_camera_names_catches_Exception:
  "(snd (get_camera_names h) = Inl e \<longleftrightarrow>
      \<not> is_Exception e
      \<and> ((system h = ''Windows'' \<and> input_devices h = Inl e)
         \<or> (system h = ''Linux'' \<and> v4l2_ctl h = Inl e)
         \<or> (system h = ''Darwin'' \<and> system_profiler h = Inl e)))
   \<and> (is_Exception e
        \<and> ((system h = ''Windows'' \<and> input_devices h = Inl e)
           \<or> (system h = ''Linux'' \<and> v4l2_ctl h = Inl e)
           \<or> (system h = ''Darwin'' \<and> system_profiler h = Inl e)) \<longrightarrow>
        get_camera_names h =
          (if system h = ''Windows'' \<and> is_ImportError e then [Tip]
           else [Could_not_read_camera_names e],
           Inr Map.empty))
   \<and> (i \<in> set (list_camera_indexes lib n) \<longrightarrow> cv_isOpened lib i \<and> cv_read lib i)"
proof (intro conjI)
  have l: "snd (linux_names mx nm stdout) = None" for mx nm stdout
    by (rule linux_names_no_exception)
  show "snd (get_camera_names h) = Inl e \<longleftrightarrow>
      \<not> is_Exception e
      \<and> ((system h = ''Windows'' \<and> input_devices h = Inl e)
         \<or> (system h = ''Linux'' \<and> v4l2_ctl h = Inl e)
         \<or> (system h = ''Darwin'' \<and> system_profiler h = Inl e))"
  proof (cases "system h = ''Windows''")
    case True
    then show ?thesis
      by (cases "input_devices h")
         (auto simp: get_camera_names_def names_body_def dest: ImportError_is_Exception)
  next
    case nw: False
    show ?thesis
    proof (cases "system h = ''Linux''")
      case True
      show ?thesis
      proof (cases "v4l2_ctl h")
        case (Inl x)
        with True show ?thesis
          by (auto simp: get_camera_names_def names_body_def)
      next
        case (Inr stdout)
        obtain nm where "linux_names (int_max_str_digits h) Map.empty stdout = (nm, None)"
          using l [of "int_max_str_digits h" Map.empty stdout]
          by (cases "linux_names (int_max_str_digits h) Map.empty stdout") auto
        with True Inr show ?thesis
          by (simp add: get_camera_names_def names_body_def)
      qed
    next
      case nl: False
      show ?thesis
      proof (cases "system h = ''Darwin''")
        case True
        then show ?thesis
          by (cases "system_profiler h")
             (auto simp: get_camera_names_def names_body_def)
      next
        case False
        with nw nl show ?thesis
          by (simp add: get_camera_names_def names_body_def)
      qed
    qed
  qed
  show "is_Exception e
        \<and> ((system h = ''Windows'' \<and> input_devices h = Inl e)
           \<or> (system h = ''Linux'' \<and> v4l2_ctl h = Inl e)
           \<or> (system h = ''Darwin'' \<and> system_profiler h = Inl e)) \<longrightarrow>
        get_camera_names h =
          (if system h = ''Windows'' \<and> is_ImportError e then [Tip]
           else [Could_not_read_camera_names e],
           Inr Map.empty)"
    by (auto simp: get_camera_names_def names_body_def)
  show "i \<in> set (list_camera_indexes lib n) \<longrightarrow> cv_isOpened lib i \<and> cv_read lib i"
    by (simp add: list_camera_indexes_filter)
qed

theorem get_camera_names_catches_Exception_witness:
  "get_camera_names linux_without_tool =
     ([Could_not_read_camera_names FileNotFoundError], Inr Map.empty)
   \<and> snd (get_camera_names linux_interrupted) = Inl KeyboardInterrupt
   \<and> 1 \<notin> set (list_camera_indexes three_devices 4)
   \<and> cv_isOpened three_devices 3 \<and> cv_read three_devices 3"
proof -
  have m: "3 \<in> set (list_camera_indexes three_devices 4)"
    by (simp add: list_camera_indexes_filter py_range_def three_devices_def upto_rec1)
  from get_camera_names_catches_Exception
         [of linux_without_tool FileNotFoundError 3 three_devices 4] m
  have 4: "cv_isOpened three_devices 3 \<and> cv_read three_devices 3"
    by blast
  have a: "is_Exception FileNotFoundError
        \<and> ((system linux_without_tool = ''Windows''
              \<and> input_devices linux_without_tool = Inl FileNotFoundError)
           \<or> (system linux_without_tool = ''Linux''
              \<and> v4l2_ctl linux_without_tool = Inl FileNotFoundError)
           \<or> (system linux_without_tool = ''Darwin''
              \<and> system_profiler linux_without_tool = Inl FileNotFoundError))"
    by (simp add: linux_without_tool_def)
  have b: "\<not> is_Exception KeyboardInterrupt
      \<and> ((system linux_interrupted = ''Windows''
            \<and> input_devices linux_interrupted = Inl KeyboardInterrupt)
         \<or> (system linux_interrupted = ''Linux''
            \<and> v4l2_ctl linux_interrupted = Inl KeyboardInterrupt)
         \<or> (system linux_interrupted = ''Darwin''
            \<and> system_profiler linux_interrupted = Inl KeyboardInterrupt))"
    by (simp add: linux_interrupted_def)
  have c: "\<not> (cv_isOpened three_devices 1 \<and> cv_read three_devices 1)"
    by (simp add: three_devices_def)
  have s: "system linux_without_tool \<noteq> ''Windows''"
    by (simp add: linux_without_tool_def)
  note t1 = get_camera_names_catches_Exception
              [of linux_without_tool FileNotFoundError 1 three_devices 4]
  note t2 = get_camera_names_catches_Exception
              [of linux_interrupted KeyboardInterrupt 1 three_devices 4]
  from t1 a have "get_camera_names linux_without_tool =
      (if system linux_without_tool = ''Windows'' \<and> is_ImportError FileNotFoundError then [Tip]
       else [Could_not_read_camera_names FileNotFoundError], Inr Map.empty)"
    by blast
  with s have 1: "get_camera_names linux_without_tool =
     ([Could_not_read_camera_names FileNotFoundError], Inr Map.empty)"
    by simp
  from t2 b have 2: "snd (get_camera_names linux_interrupted) = Inl KeyboardInterrupt"
    by blast
  from t1 c have 3: "1 \<notin> set (list_camera_indexes three_devices 4)"
    by blast
  from 1 2 3 4 show ?thesis by blast
qed

end
